theory Spec2Isabelle
  imports Complex_Main "HOL-Library.Word" "HOL-Library.Monad_Syntax" "HOL-Library.Signed_Division"
begin

unbundle bit_operations_syntax

section \<open>Buffers and loops\<close>

text \<open>
  The C++ buffers are \<open>std::vector\<close>s indexed with \<open>int\<close> expressions. An index outside
  the allocated range is undefined behaviour in the source; the model makes it an explicit
  failure: every read and write is checked and yields \<open>None\<close> out of range.
  Index arithmetic is done on unbounded \<open>int\<close>: the products of map-sized coordinates
  stay far below \<open>2^31\<close>, so the wrap-around of the machine \<open>int\<close> is not modelled.
\<close>

definition rd :: "'a list \<Rightarrow> int \<Rightarrow> 'a option" where
  "rd buf i = (if 0 \<le> i \<and> i < int (length buf) then Some (buf ! nat i) else None)"

definition wr :: "'a list \<Rightarrow> int \<Rightarrow> 'a \<Rightarrow> 'a list option" where
  "wr buf i v = (if 0 \<le> i \<and> i < int (length buf) then Some (buf[nat i := v]) else None)"

text \<open>
  \<open>for (int i = a; i < n; i += step) body\<close>. The source's steps are the literals 1 and 2
  and the SIMD width; the guard \<open>0 < step\<close> only makes the model total. A body that fails
  stops the loop. The row loops the source hands to \<open>for_mt_chunk\<close> write disjoint ranges
  per row and are modelled as the sequential loop over the rows.
\<close>

function for_step :: "int \<Rightarrow> int \<Rightarrow> int \<Rightarrow> (int \<Rightarrow> 's \<Rightarrow> 's option) \<Rightarrow> 's \<Rightarrow> 's option" where
  "for_step step i n body s =
     (if i < n \<and> 0 < step
      then (case body i s of None \<Rightarrow> None | Some s' \<Rightarrow> for_step step (i + step) n body s')
      else Some s)"
  by pat_completeness auto
termination
  by (relation "measure (\<lambda>(step, i, n, body, s). nat (n - i))") auto

declare for_step.simps [simp del]

section \<open>Rectangles, map dimensions, vectors\<close>

record SRectangle =
  x1 :: int
  z1 :: int
  x2 :: int
  z2 :: int

text \<open>
  \<open>MapDimensions\<close>: the source keeps \<open>mapxm1\<close>, \<open>mapxp1\<close>, \<open>hmapx\<close> (and the same for y)
  as fields filled in by \<open>MapDimensions::Initialize\<close>, whose header is not part of the
  sources at hand; they are the values their names say (one less, one more, half).
\<close>

record MapDimensions =
  mapx :: int
  mapy :: int

definition mapxm1 :: "MapDimensions \<Rightarrow> int" where "mapxm1 d = mapx d - 1"
definition mapym1 :: "MapDimensions \<Rightarrow> int" where "mapym1 d = mapy d - 1"
definition mapxp1 :: "MapDimensions \<Rightarrow> int" where "mapxp1 d = mapx d + 1"
definition mapyp1 :: "MapDimensions \<Rightarrow> int" where "mapyp1 d = mapy d + 1"
definition hmapx :: "MapDimensions \<Rightarrow> int" where "hmapx d = drop_bit 1 (mapx d)"
definition hmapy :: "MapDimensions \<Rightarrow> int" where "hmapy d = drop_bit 1 (mapy d)"

datatype 'a float2 = Float2 (f2x: 'a) (f2y: 'a)

datatype 'a float3 = Float3 (fx: 'a) (fy: 'a) (fz: 'a)

definition float3_add :: "'a::plus float3 \<Rightarrow> 'a float3 \<Rightarrow> 'a float3" where
  "float3_add a b = Float3 (fx a + fx b) (fy a + fy b) (fz a + fz b)"

section \<open>Floats and the constants of headers\<close>

text \<open>
  Heights are \<open>float\<close>s. The model is polymorphic in the type \<open>'a\<close> of floats and uses
  only the syntax of \<open>+\<close>, \<open>-\<close>, \<open>*\<close>, \<open>/\<close> and \<open><\<close> on it; no law of arithmetic is
  assumed, so whatever is proved for every \<open>'a\<close> holds for IEEE single precision with
  its rounding as well as for the real numbers. The float literals, the constants of
  headers that are not part of the sources at hand, and the helpers \<open>float3::Normalize\<close>,
  \<open>float3::Normalize2D\<close> and \<open>mix\<close> (also outside the sources at hand) are parameters,
  collected in one record. \<open>HeightMapUpdateLOSCheck\<close> consults the line-of-sight
  handler and only appends rectangles to the update queue; the rectangles it appends
  are a parameter too.
\<close>

record 'a Env =
  numHeightMipMaps :: int
  GAME_SPEED :: int
  simdSize :: int
  USE_UNSYNCED_HEIGHTMAP :: bool
  SQUARE_SIZE :: 'a
  lit_0 :: 'a
  lit_1 :: 'a
  lit_0_25 :: 'a
  lit_0_125 :: 'a
  flt_max :: 'a
  flt_lowest :: 'a
  Normalize :: "'a float3 \<Rightarrow> 'a float3"
  Normalize2D :: "'a float3 \<Rightarrow> 'a float3"
  mix :: "'a \<Rightarrow> 'a \<Rightarrow> 'a \<Rightarrow> 'a"
  HeightMapUpdateLOSCheck :: "SRectangle \<Rightarrow> SRectangle list"

text \<open>\<open>std::min(a, b)\<close> is \<open>(b < a) ? b : a\<close> and \<open>std::max(a, b)\<close> is \<open>(a < b) ? b : a\<close>;
  the SIMD \<open>min\<close> and \<open>max\<close> select per lane, \<open>a < b ? a : b\<close> and \<open>a > b ? a : b\<close>.\<close>

definition std_min :: "'a::ord \<Rightarrow> 'a \<Rightarrow> 'a" where
  "std_min a b = (if b < a then b else a)"

definition std_max :: "'a::ord \<Rightarrow> 'a \<Rightarrow> 'a" where
  "std_max a b = (if a < b then b else a)"

definition xsimd_min :: "'a::ord list \<Rightarrow> 'a list \<Rightarrow> 'a list" where
  "xsimd_min u v = map2 (\<lambda>a b. if a < b then a else b) u v"

definition xsimd_max :: "'a::ord list \<Rightarrow> 'a list \<Rightarrow> 'a list" where
  "xsimd_max u v = map2 (\<lambda>a b. if b < a then a else b) u v"

definition load_unaligned :: "'a list \<Rightarrow> int \<Rightarrow> int \<Rightarrow> 'a list option" where
  "load_unaligned buf i n =
     (if 0 \<le> i \<and> 0 \<le> n \<and> i + n \<le> int (length buf)
      then Some (take (nat n) (drop (nat i) buf)) else None)"

section \<open>The state of the height field\<close>

record 'a CReadMap =
  heightMapSynced :: "'a list"
  mapFileHeightMap :: "'a list"
  originalHeightMap :: "'a list"
  centerHeightMap :: "'a list"
  mipCenterHeightMaps :: "'a list list"
  visVertexNormals :: "'a float3 list"
  faceNormalsSynced :: "'a float3 list"
  faceNormalsUnsynced :: "'a float3 list"
  centerNormalsSynced :: "'a float3 list"
  centerNormalsUnsynced :: "'a float3 list"
  centerNormals2D :: "'a float3 list"
  slopeMap :: "'a list"
  typeMap :: "8 word list"
  unsyncedHeightMapUpdates :: "SRectangle list"
  initHeightBounds :: "'a float2"
  tempHeightBounds :: "'a float2"
  currHeightBounds :: "'a float2"
  processingHeightBounds :: bool
  hmUpdated :: bool

text \<open>\<open>mipPointerHeightMaps[0]\<close> points to the center height map, \<open>mipPointerHeightMaps[i]\<close>
  for \<open>i > 0\<close> to \<open>mipCenterHeightMaps[i - 1]\<close>.\<close>

definition mipPointerHeightMaps :: "'a CReadMap \<Rightarrow> int \<Rightarrow> 'a list option" where
  "mipPointerHeightMaps s i =
     (if i = 0 then Some (centerHeightMap s) else rd (mipCenterHeightMaps s) (i - 1))"

definition mip_store :: "'a CReadMap \<Rightarrow> int \<Rightarrow> int \<Rightarrow> 'a \<Rightarrow> 'a CReadMap option" where
  "mip_store s i idx v =
     (if i = 0 then do {
        c \<leftarrow> wr (centerHeightMap s) idx v;
        Some (s\<lparr>centerHeightMap := c\<rparr>) }
      else do {
        lvl \<leftarrow> rd (mipCenterHeightMaps s) (i - 1);
        lvl' \<leftarrow> wr lvl idx v;
        m \<leftarrow> wr (mipCenterHeightMaps s) (i - 1) lvl';
        Some (s\<lparr>mipCenterHeightMaps := m\<rparr>) })"

section \<open>The derivation pipeline\<close>

text \<open>Each step is a pair of nested loops over a rectangle; the body of the inner loop
  is given a name of its own, with the row \<open>y\<close> and the column \<open>x\<close> as arguments.\<close>

definition UpdateCenterHeightmap_body ::
  "('a::{plus,times}) Env \<Rightarrow> MapDimensions \<Rightarrow> int \<Rightarrow> int \<Rightarrow> 'a CReadMap \<Rightarrow> 'a CReadMap option" where
  "UpdateCenterHeightmap_body E d y x s = do {
     let idxTL = (y + 0) * mapxp1 d + x + 0;
     let idxTR = (y + 0) * mapxp1 d + x + 1;
     let idxBL = (y + 1) * mapxp1 d + x + 0;
     let idxBR = (y + 1) * mapxp1 d + x + 1;
     hTL \<leftarrow> rd (heightMapSynced s) idxTL;
     hTR \<leftarrow> rd (heightMapSynced s) idxTR;
     hBL \<leftarrow> rd (heightMapSynced s) idxBL;
     hBR \<leftarrow> rd (heightMapSynced s) idxBR;
     let height = hTL + hTR + hBL + hBR;
     c \<leftarrow> wr (centerHeightMap s) (y * mapx d + x) (height * lit_0_25 E);
     Some (s\<lparr>centerHeightMap := c\<rparr>) }"

definition UpdateCenterHeightmap ::
  "('a::{plus,times}) Env \<Rightarrow> MapDimensions \<Rightarrow> SRectangle \<Rightarrow> bool \<Rightarrow> 'a CReadMap \<Rightarrow> 'a CReadMap option" where
  "UpdateCenterHeightmap E d rect initialize s =
     for_step 1 (z1 rect) (z2 rect + 1) (\<lambda>y.
       for_step 1 (x1 rect) (x2 rect + 1) (UpdateCenterHeightmap_body E d y)) s"

definition UpdateMipHeightmaps_body ::
  "('a::{plus,times}) Env \<Rightarrow> int \<Rightarrow> int \<Rightarrow> int \<Rightarrow> int \<Rightarrow> 'a CReadMap \<Rightarrow> 'a CReadMap option" where
  "UpdateMipHeightmaps_body E i hmapx' y x s = do {
     topMipMap \<leftarrow> mipPointerHeightMaps s i;
     a \<leftarrow> rd topMipMap ((x    ) + (y    ) * hmapx');
     b \<leftarrow> rd topMipMap ((x    ) + (y + 1) * hmapx');
     c \<leftarrow> rd topMipMap ((x + 1) + (y    ) * hmapx');
     e \<leftarrow> rd topMipMap ((x + 1) + (y + 1) * hmapx');
     let height = a + b + c + e;
     mip_store s (i + 1) ((x sdiv 2) + (y sdiv 2) * hmapx' sdiv 2) (height * lit_0_25 E) }"

definition UpdateMipHeightmaps_level ::
  "('a::{plus,times}) Env \<Rightarrow> MapDimensions \<Rightarrow> SRectangle \<Rightarrow> int \<Rightarrow> 'a CReadMap \<Rightarrow> 'a CReadMap option" where
  "UpdateMipHeightmaps_level E d rect i s =
     (let hmapx = drop_bit (nat i) (mapx d);
          sx = (drop_bit (nat i) (x1 rect)) AND (NOT 1);
          ex = drop_bit (nat i) (x2 rect);
          sy = (drop_bit (nat i) (z1 rect)) AND (NOT 1);
          ey = drop_bit (nat i) (z2 rect)
      in for_step 2 sy ey (\<lambda>y. for_step 2 sx ex (UpdateMipHeightmaps_body E i hmapx y)) s)"

definition UpdateMipHeightmaps ::
  "('a::{plus,times}) Env \<Rightarrow> MapDimensions \<Rightarrow> SRectangle \<Rightarrow> bool \<Rightarrow> 'a CReadMap \<Rightarrow> 'a CReadMap option" where
  "UpdateMipHeightmaps E d rect initialize s =
     for_step 1 0 (numHeightMipMaps E - 1) (UpdateMipHeightmaps_level E d rect) s"

definition UpdateFaceNormals_body ::
  "('a::{plus,minus,uminus}) Env \<Rightarrow> MapDimensions \<Rightarrow> bool \<Rightarrow> int \<Rightarrow> int \<Rightarrow> 'a CReadMap \<Rightarrow> 'a CReadMap option" where
  "UpdateFaceNormals_body E d initialize y x s = do {
     let idxTL = (y    ) * mapxp1 d + x;
     let idxBL = (y + 1) * mapxp1 d + x;
     hTL \<leftarrow> rd (heightMapSynced s) (idxTL    );
     hTR \<leftarrow> rd (heightMapSynced s) (idxTL + 1);
     hBL \<leftarrow> rd (heightMapSynced s) (idxBL    );
     hBR \<leftarrow> rd (heightMapSynced s) (idxBL + 1);
     let fnTL = Normalize E (Float3 (- (hTR - hTL)) (SQUARE_SIZE E) (- (hBL - hTL)));
     let fnBR = Normalize E (Float3 (hBL - hBR) (SQUARE_SIZE E) (hTR - hBR));
     f \<leftarrow> wr (faceNormalsSynced s) ((y * mapx d + x) * 2    ) fnTL;
     f \<leftarrow> wr f ((y * mapx d + x) * 2 + 1) fnBR;
     cn \<leftarrow> wr (centerNormalsSynced s) (y * mapx d + x) (Normalize E (float3_add fnTL fnBR));
     c2 \<leftarrow> wr (centerNormals2D s) (y * mapx d + x) (Normalize2D E (float3_add fnTL fnBR));
     let s = s\<lparr>faceNormalsSynced := f, centerNormalsSynced := cn, centerNormals2D := c2\<rparr>;
     if USE_UNSYNCED_HEIGHTMAP E \<and> initialize then do {
       nTL \<leftarrow> rd (faceNormalsSynced s) ((y * mapx d + x) * 2    );
       fu \<leftarrow> wr (faceNormalsUnsynced s) ((y * mapx d + x) * 2    ) nTL;
       nBR \<leftarrow> rd (faceNormalsSynced s) ((y * mapx d + x) * 2 + 1);
       fu \<leftarrow> wr fu ((y * mapx d + x) * 2 + 1) nBR;
       n \<leftarrow> rd (centerNormalsSynced s) (y * mapx d + x);
       cu \<leftarrow> wr (centerNormalsUnsynced s) (y * mapx d + x) n;
       Some (s\<lparr>faceNormalsUnsynced := fu, centerNormalsUnsynced := cu\<rparr>) }
     else Some s }"

definition UpdateFaceNormals ::
  "('a::{plus,minus,uminus}) Env \<Rightarrow> MapDimensions \<Rightarrow> SRectangle \<Rightarrow> bool \<Rightarrow> 'a CReadMap \<Rightarrow> 'a CReadMap option" where
  "UpdateFaceNormals E d rect initialize s =
     (let fz1 = max 0 (z1 rect - 1);
          fx1 = max 0 (x1 rect - 1);
          fz2 = min (mapym1 d) (z2 rect + 1);
          fx2 = min (mapxm1 d) (x2 rect + 1)
      in for_step 1 fz1 (fz2 + 1) (\<lambda>y.
           for_step 1 fx1 (fx2 + 1) (UpdateFaceNormals_body E d initialize y)) s)"

definition UpdateSlopemap_body ::
  "('a::{plus,minus,times,inverse,ord}) Env \<Rightarrow> MapDimensions \<Rightarrow> int \<Rightarrow> int \<Rightarrow> 'a CReadMap \<Rightarrow> 'a CReadMap option" where
  "UpdateSlopemap_body E d y x s = do {
     let idx0 = (y * 2    ) * (mapx d) + x * 2;
     let idx1 = (y * 2 + 1) * (mapx d) + x * 2;
     n0 \<leftarrow> rd (faceNormalsSynced s) ((idx0    ) * 2    );
     n1 \<leftarrow> rd (faceNormalsSynced s) ((idx0    ) * 2 + 1);
     n2 \<leftarrow> rd (faceNormalsSynced s) ((idx0 + 1) * 2    );
     n3 \<leftarrow> rd (faceNormalsSynced s) ((idx0 + 1) * 2 + 1);
     n4 \<leftarrow> rd (faceNormalsSynced s) ((idx1    ) * 2    );
     n5 \<leftarrow> rd (faceNormalsSynced s) ((idx1    ) * 2 + 1);
     n6 \<leftarrow> rd (faceNormalsSynced s) ((idx1 + 1) * 2    );
     n7 \<leftarrow> rd (faceNormalsSynced s) ((idx1 + 1) * 2 + 1);
     let avgslope = lit_0 E;
     let avgslope = avgslope + fy n0;
     let avgslope = avgslope + fy n1;
     let avgslope = avgslope + fy n2;
     let avgslope = avgslope + fy n3;
     let avgslope = avgslope + fy n4;
     let avgslope = avgslope + fy n5;
     let avgslope = avgslope + fy n6;
     let avgslope = avgslope + fy n7;
     let avgslope = avgslope * lit_0_125 E;
     let maxslope = fy n0;
     let maxslope = std_min maxslope (fy n1);
     let maxslope = std_min maxslope (fy n2);
     let maxslope = std_min maxslope (fy n3);
     let maxslope = std_min maxslope (fy n4);
     let maxslope = std_min maxslope (fy n5);
     let maxslope = std_min maxslope (fy n6);
     let maxslope = std_min maxslope (fy n7);
     let lerp = maxslope / avgslope;
     let slope = mix E maxslope avgslope lerp;
     sm \<leftarrow> wr (slopeMap s) (y * hmapx d + x) (lit_1 E - slope);
     Some (s\<lparr>slopeMap := sm\<rparr>) }"

definition UpdateSlopemap ::
  "('a::{plus,minus,times,inverse,ord}) Env \<Rightarrow> MapDimensions \<Rightarrow> SRectangle \<Rightarrow> bool \<Rightarrow> 'a CReadMap \<Rightarrow> 'a CReadMap option" where
  "UpdateSlopemap E d rect initialize s =
     (let sx = max 0 ((x1 rect sdiv 2) - 1);
          ex = min (hmapx d - 1) ((x2 rect sdiv 2) + 1);
          sy = max 0 ((z1 rect sdiv 2) - 1);
          ey = min (hmapy d - 1) ((z2 rect sdiv 2) + 1)
      in for_step 1 sy (ey + 1) (\<lambda>y.
           for_step 1 sx (ex + 1) (UpdateSlopemap_body E d y)) s)"

definition UpdateHeightMapSynced ::
  "('a::{plus,minus,uminus,times,inverse,ord}) Env \<Rightarrow> MapDimensions \<Rightarrow> SRectangle \<Rightarrow> 'a CReadMap \<Rightarrow> 'a CReadMap option" where
  "UpdateHeightMapSynced E d hgtMapRect s = do {
     let initialize = (hgtMapRect = \<lparr>x1 = 0, z1 = 0, x2 = mapx d, z2 = mapy d\<rparr>);
     let mins = (x1 hgtMapRect - 1, z1 hgtMapRect - 1);
     let maxs = (x2 hgtMapRect + 1, z2 hgtMapRect + 1);
     let centerRect = \<lparr>x1 = max (fst mins) 0, z1 = max (snd mins) 0,
                        x2 = min (fst maxs) (mapxm1 d), z2 = min (snd maxs) (mapym1 d)\<rparr>;
     let cornerRect = \<lparr>x1 = max (fst mins) 0, z1 = max (snd mins) 0,
                        x2 = min (fst maxs) (mapx d), z2 = min (snd maxs) (mapy d)\<rparr>;
     s \<leftarrow> UpdateCenterHeightmap E d centerRect initialize s;
     s \<leftarrow> UpdateMipHeightmaps E d centerRect initialize s;
     s \<leftarrow> UpdateFaceNormals E d centerRect initialize s;
     s \<leftarrow> UpdateSlopemap E d centerRect initialize s;
     Some (s\<lparr>unsyncedHeightMapUpdates := unsyncedHeightMapUpdates s @
              (if USE_UNSYNCED_HEIGHTMAP E \<and> \<not> initialize
               then HeightMapUpdateLOSCheck E cornerRect else [cornerRect])\<rparr>) }"

section \<open>Height bounds\<close>

text \<open>
  \<open>UpdateTempHeightBoundsSIMD\<close> folds the heights with indices from \<open>idxBeg\<close> up to
  \<open>idxEnd\<close> into \<open>tempHeightBounds\<close>: a vector loop over \<open>simdSize\<close> lanes, the
  horizontal reduction of the lanes, and the scalar remainder. The arguments are
  \<open>size_t\<close>; an end before the beginning would wrap around and read out of range.
\<close>

definition UpdateTempHeightBoundsSIMD ::
  "('a::ord) Env \<Rightarrow> int \<Rightarrow> int \<Rightarrow> 'a CReadMap \<Rightarrow> 'a CReadMap option" where
  "UpdateTempHeightBoundsSIMD E idxBeg idxEnd s =
     (if simdSize E \<le> 0 \<or> idxEnd < idxBeg then None else do {
        let indCnt = idxEnd - idxBeg;
        let vecSize = indCnt - indCnt mod simdSize E;
        let smin = replicate (nat (simdSize E)) (f2x (tempHeightBounds s));
        let smax = replicate (nat (simdSize E)) (f2y (tempHeightBounds s));
        (smin, smax) \<leftarrow> for_step (simdSize E) 0 vecSize (\<lambda>idxRel (smin, smax). do {
            simdVec \<leftarrow> load_unaligned (heightMapSynced s) (idxBeg + idxRel) (simdSize E);
            Some (xsimd_min simdVec smin, xsimd_max simdVec smax) }) (smin, smax);
        s \<leftarrow> for_step 1 0 (simdSize E) (\<lambda>i s. do {
            a \<leftarrow> rd smin i;
            b \<leftarrow> rd smax i;
            Some (s\<lparr>tempHeightBounds :=
                    Float2 (std_min a (f2x (tempHeightBounds s))) (std_max b (f2y (tempHeightBounds s)))\<rparr>) }) s;
        for_step 1 vecSize indCnt (\<lambda>idxRel s. do {
            h \<leftarrow> rd (heightMapSynced s) (idxBeg + idxRel);
            Some (s\<lparr>tempHeightBounds :=
                    Float2 (std_min h (f2x (tempHeightBounds s))) (std_max h (f2y (tempHeightBounds s)))\<rparr>) }) s })"

text \<open>\<open>UpdateHeightBounds(int syncFrame)\<close>, the paced scan: one slice per call.
  \<open>%\<close> and \<open>/\<close> on \<open>int\<close> truncate towards zero.\<close>

definition UpdateHeightBounds_frame ::
  "('a::ord) Env \<Rightarrow> MapDimensions \<Rightarrow> int \<Rightarrow> 'a CReadMap \<Rightarrow> 'a CReadMap option" where
  "UpdateHeightBounds_frame E d syncFrame s =
     (let PACING_PERIOD = GAME_SPEED E in
      if PACING_PERIOD = 0 then None else do {
        let dataChunk = syncFrame smod PACING_PERIOD;
        let s = (if dataChunk = 0
                 then (let s = (if processingHeightBounds s
                                then s\<lparr>currHeightBounds := tempHeightBounds s\<rparr> else s)
                       in s\<lparr>processingHeightBounds := hmUpdated s, hmUpdated := False\<rparr>)
                 else s);
        if \<not> processingHeightBounds s then Some s else do {
          let s = (if dataChunk = 0
                   then s\<lparr>tempHeightBounds := Float2 (flt_max E) (flt_lowest E)\<rparr> else s);
          let idxBeg = (dataChunk + 0) * mapxp1 d * mapyp1 d sdiv PACING_PERIOD;
          let idxEnd = (dataChunk + 1) * mapxp1 d * mapyp1 d sdiv PACING_PERIOD;
          UpdateTempHeightBoundsSIMD E idxBeg idxEnd s } })"

text \<open>\<open>UpdateHeightBounds()\<close>, the full rescan.\<close>

definition UpdateHeightBounds ::
  "('a::ord) Env \<Rightarrow> MapDimensions \<Rightarrow> 'a CReadMap \<Rightarrow> 'a CReadMap option" where
  "UpdateHeightBounds E d s = do {
     let s = s\<lparr>tempHeightBounds := Float2 (flt_max E) (flt_lowest E)\<rparr>;
     s \<leftarrow> UpdateTempHeightBoundsSIMD E 0 (mapxp1 d * mapyp1 d) s;
     Some (s\<lparr>currHeightBounds := Float2 (f2x (tempHeightBounds s)) (f2y (tempHeightBounds s))\<rparr>) }"

text \<open>\<open>PACING_PERIOD\<close> consecutive calls of the paced scan, for the frames
  \<open>f, f + 1, \<dots>\<close>.\<close>

fun paced_calls :: "('a::ord) Env \<Rightarrow> MapDimensions \<Rightarrow> nat \<Rightarrow> int \<Rightarrow> 'a CReadMap \<Rightarrow> 'a CReadMap option" where
  "paced_calls E d 0 f s = Some s"
| "paced_calls E d (Suc n) f s =
     (case UpdateHeightBounds_frame E d f s of None \<Rightarrow> None | Some s' \<Rightarrow> paced_calls E d n (f + 1) s')"

section \<open>Initialization\<close>

text \<open>
  \<open>InitHeightBounds\<close> and \<open>LoadOriginalHeightMapAndChecksum\<close>; the checksum (a hash
  from a header outside the sources at hand) is left out.
\<close>

definition LoadOriginalHeightMapAndChecksum ::
  "('a::ord) Env \<Rightarrow> MapDimensions \<Rightarrow> 'a CReadMap \<Rightarrow> 'a CReadMap option" where
  "LoadOriginalHeightMapAndChecksum E d s = do {
     let s = s\<lparr>initHeightBounds := Float2 (flt_max E) (flt_lowest E)\<rparr>;
     let s = s\<lparr>tempHeightBounds := initHeightBounds s\<rparr>;
     s \<leftarrow> for_step 1 0 (mapxp1 d * mapyp1 d) (\<lambda>i s. do {
         h \<leftarrow> rd (heightMapSynced s) i;
         ohm \<leftarrow> wr (originalHeightMap s) i h;
         Some (s\<lparr>originalHeightMap := ohm,
                 initHeightBounds := Float2 (std_min (f2x (initHeightBounds s)) h)
                                            (std_max (f2y (initHeightBounds s)) h)\<rparr>) }) s;
     Some (s\<lparr>currHeightBounds := Float2 (f2x (initHeightBounds s)) (f2y (initHeightBounds s))\<rparr>) }"

definition InitHeightBounds ::
  "('a::ord) Env \<Rightarrow> MapDimensions \<Rightarrow> 'a CReadMap \<Rightarrow> 'a CReadMap option" where
  "InitHeightBounds E d s = do {
     s \<leftarrow> for_step 1 0 (mapxp1 d * mapyp1 d) (\<lambda>i s. do {
         h \<leftarrow> rd (heightMapSynced s) i;
         mhm \<leftarrow> wr (mapFileHeightMap s) i h;
         Some (s\<lparr>mapFileHeightMap := mhm\<rparr>) }) s;
     LoadOriginalHeightMapAndChecksum E d s }"

text \<open>
  \<open>Initialize\<close> runs on the object whose synced corner height map the loader has set.
  It sizes every buffer (\<open>resize\<close> fills with zeros), records the height bounds and runs
  the derivation pipeline on the whole map. The source has no \<open>throw\<close> in it; the
  result type still has room for an exception, so that what the function never does can
  be said: \<open>None\<close> is an access out of range, \<open>Some (Inl e)\<close> the exception \<open>e\<close>,
  \<open>Some (Inr s)\<close> the state after a normal return.
\<close>

datatype exception = ConfigurationError

definition Initialize ::
  "('a::{plus,minus,uminus,times,inverse,ord}) Env \<Rightarrow> MapDimensions \<Rightarrow> 'a CReadMap
     \<Rightarrow> (exception + 'a CReadMap) option" where
  "Initialize E d s = do {
     let zero3 = Float3 (lit_0 E) (lit_0 E) (lit_0 E);
     let s = s\<lparr>mapFileHeightMap := replicate (nat (mapxp1 d * mapyp1 d)) (lit_0 E),
               originalHeightMap := replicate (nat (mapxp1 d * mapyp1 d)) (lit_0 E),
               faceNormalsSynced := replicate (nat (mapx d * mapy d * 2)) zero3,
               faceNormalsUnsynced := replicate (nat (mapx d * mapy d * 2)) zero3,
               centerNormalsSynced := replicate (nat (mapx d * mapy d)) zero3,
               centerNormalsUnsynced := replicate (nat (mapx d * mapy d)) zero3,
               centerNormals2D := replicate (nat (mapx d * mapy d)) zero3,
               centerHeightMap := replicate (nat (mapx d * mapy d)) (lit_0 E)\<rparr>;
     mips \<leftarrow> for_step 1 1 (numHeightMipMaps E) (\<lambda>i mips.
         wr mips (i - 1) (replicate (nat (drop_bit (nat i) (mapx d) * drop_bit (nat i) (mapy d))) (lit_0 E)))
       (replicate (nat (numHeightMipMaps E - 1)) []);
     let s = s\<lparr>mipCenterHeightMaps := mips,
               slopeMap := replicate (nat (hmapx d * hmapy d)) (lit_0 E),
               typeMap := replicate (nat (hmapx d * hmapy d)) 0,
               visVertexNormals := replicate (nat (mapxp1 d * mapyp1 d)) zero3\<rparr>;
     s \<leftarrow> InitHeightBounds E d s;
     s \<leftarrow> UpdateHeightMapSynced E d \<lparr>x1 = 0, z1 = 0, x2 = mapx d, z2 = mapy d\<rparr> s;
     Some (Inr s) }"

section \<open>Differential serialization of the height map\<close>

text \<open>
  \<open>creg::ISerializer\<close> either writes or reads. \<open>Serialize(&height, sizeof(int32_t))\<close>
  appends one 32-bit word to the stream when writing and takes the next word off it when
  reading; reading past the end of the stream fails. The height maps are seen through
  \<open>reinterpret_cast<int32_t*>\<close>, that is as the bit patterns of their floats.
\<close>

datatype ISerializer = Writer "32 word list" | Reader "32 word list"

fun IsWriting :: "ISerializer \<Rightarrow> bool" where
  "IsWriting (Writer out) = True"
| "IsWriting (Reader inp) = False"

fun Serialize_put :: "ISerializer \<Rightarrow> 32 word \<Rightarrow> ISerializer option" where
  "Serialize_put (Writer out) w = Some (Writer (out @ [w]))"
| "Serialize_put (Reader inp) w = None"

fun Serialize_get :: "ISerializer \<Rightarrow> (32 word \<times> ISerializer) option" where
  "Serialize_get (Reader (w # inp)) = Some (w, Reader inp)"
| "Serialize_get (Reader []) = None"
| "Serialize_get (Writer out) = None"

definition SerializeMapChanges ::
  "MapDimensions \<Rightarrow> ISerializer \<Rightarrow> 32 word list \<Rightarrow> 32 word list
    \<Rightarrow> (ISerializer \<times> 32 word list) option" where
  "SerializeMapChanges d s refHeightMap modifiedHeightMap =
     (if IsWriting s then
        for_step 1 0 (mapxp1 d * mapyp1 d)
          (\<lambda>i (s, ichms). do {
             a \<leftarrow> rd ichms i;
             b \<leftarrow> rd refHeightMap i;
             s' \<leftarrow> Serialize_put s (a XOR b);
             Some (s', ichms) })
          (s, modifiedHeightMap)
      else
        for_step 1 0 (mapxp1 d * mapyp1 d)
          (\<lambda>i (s, ichms). do {
             (height, s') \<leftarrow> Serialize_get s;
             b \<leftarrow> rd refHeightMap i;
             ichms' \<leftarrow> wr ichms i (height XOR b);
             Some (s', ichms') })
          (s, modifiedHeightMap))"

section \<open>Draining the queue of unsynced height-map updates\<close>

definition MAX_UHM_RECTS_PER_FRAME :: nat where
  "MAX_UHM_RECTS_PER_FRAME = 128"

text \<open>
  \<open>unsyncedHeightMapUpdates\<close> is a queue of rectangles. Its \<open>Process\<close> (the layout
  optimiser of the rectangle container), the virtual \<open>UpdateHeightMapUnsynced\<close> and the
  event handler live outside the sources at hand: \<open>Process\<close> is a parameter, and the two
  calls made per rectangle are recorded as the lists of rectangles they were made with,
  in the order of the calls.
\<close>

record DrawEffects =
  uhmUpdated :: "SRectangle list"
  uhmEvents :: "SRectangle list"

fun pop_front :: "'a list \<Rightarrow> 'a list option" where
  "pop_front [] = None"
| "pop_front (r # q) = Some q"

definition UpdateDraw ::
  "(bool \<Rightarrow> SRectangle list \<Rightarrow> SRectangle list) \<Rightarrow> bool \<Rightarrow> 'a CReadMap
     \<Rightarrow> (DrawEffects \<times> 'a CReadMap) option" where
  "UpdateDraw Process firstCall s =
     (if unsyncedHeightMapUpdates s = [] then
        Some (\<lparr>uhmUpdated = [], uhmEvents = []\<rparr>, s)
      else do {
        let q = Process firstCall (unsyncedHeightMapUpdates s);
        let N = int (min MAX_UHM_RECTS_PER_FRAME (length q));
        ups \<leftarrow> for_step 1 0 N (\<lambda>i ups. do { r \<leftarrow> rd q i; Some (ups @ [r]) }) [];
        evs \<leftarrow> for_step 1 0 N (\<lambda>i evs. do { r \<leftarrow> rd q i; Some (evs @ [r]) }) [];
        q' \<leftarrow> for_step 1 0 N (\<lambda>i q. pop_front q) q;
        Some (\<lparr>uhmUpdated = ups, uhmEvents = evs\<rparr>, s\<lparr>unsyncedHeightMapUpdates := q'\<rparr>)
      })"

section \<open>Well-formed states and the values of derived cells\<close>

text \<open>
  The buffers have the sizes \<open>Initialize\<close> gives them, for a map whose dimensions are
  positive and can be halved at every mip level.
\<close>

definition buffers_ok :: "'a Env \<Rightarrow> MapDimensions \<Rightarrow> 'a CReadMap \<Rightarrow> bool" where
  "buffers_ok E d s \<longleftrightarrow>
     0 < mapx d \<and> 0 < mapy d \<and> 1 \<le> numHeightMipMaps E
   \<and> 2 ^ nat (numHeightMipMaps E - 1) dvd mapx d
   \<and> 2 ^ nat (numHeightMipMaps E - 1) dvd mapy d
   \<and> int (length (heightMapSynced s)) = mapxp1 d * mapyp1 d
   \<and> int (length (centerHeightMap s)) = mapx d * mapy d
   \<and> int (length (mipCenterHeightMaps s)) = numHeightMipMaps E - 1
   \<and> (\<forall>i. 1 \<le> i \<and> i < numHeightMipMaps E \<longrightarrow>
         int (length (mipCenterHeightMaps s ! nat (i - 1)))
           = drop_bit (nat i) (mapx d) * drop_bit (nat i) (mapy d))
   \<and> int (length (faceNormalsSynced s)) = mapx d * mapy d * 2
   \<and> int (length (faceNormalsUnsynced s)) = mapx d * mapy d * 2
   \<and> int (length (centerNormalsSynced s)) = mapx d * mapy d
   \<and> int (length (centerNormalsUnsynced s)) = mapx d * mapy d
   \<and> int (length (centerNormals2D s)) = mapx d * mapy d
   \<and> int (length (slopeMap s)) = hmapx d * hmapy d"

text \<open>The rectangle \<open>UpdateHeightMapSynced\<close> hands to the derivation steps.\<close>

definition centerRect :: "MapDimensions \<Rightarrow> SRectangle \<Rightarrow> SRectangle" where
  "centerRect d r = \<lparr>x1 = max (x1 r - 1) 0, z1 = max (z1 r - 1) 0,
                     x2 = min (x2 r + 1) (mapxm1 d), z2 = min (z2 r + 1) (mapym1 d)\<rparr>"

text \<open>A rectangle within the bounds of the center height map (it may be empty).\<close>

definition rect_ok :: "MapDimensions \<Rightarrow> SRectangle \<Rightarrow> bool" where
  "rect_ok d r \<longleftrightarrow> 0 \<le> x1 r \<and> 0 \<le> z1 r \<and> x2 r \<le> mapxm1 d \<and> z2 r \<le> mapym1 d"

text \<open>The height of corner \<open>(x, y)\<close> in a corner height map, and the value the
  center-height loop computes for the square \<open>(x, y)\<close>.\<close>

definition corner :: "MapDimensions \<Rightarrow> 'a list \<Rightarrow> int \<Rightarrow> int \<Rightarrow> 'a" where
  "corner d h x y = h ! nat (y * mapxp1 d + x)"

definition center_value :: "('a::{plus,times}) Env \<Rightarrow> MapDimensions \<Rightarrow> 'a list \<Rightarrow> int \<Rightarrow> int \<Rightarrow> 'a" where
  "center_value E d h x y =
     (corner d h x y + corner d h (x + 1) y + corner d h x (y + 1) + corner d h (x + 1) (y + 1))
       * lit_0_25 E"

text \<open>Level \<open>i\<close> of the mip pyramid as a buffer (level 0 is the center height map), its
  cell \<open>(x, y)\<close>, and the statement that cell \<open>(cx, cy)\<close> of level \<open>i + 1\<close> holds what
  the mip loop computes from its four source cells of level \<open>i\<close>.\<close>

definition mip_level :: "'a CReadMap \<Rightarrow> int \<Rightarrow> 'a list" where
  "mip_level s i = (if i = 0 then centerHeightMap s else mipCenterHeightMaps s ! nat (i - 1))"

definition mip_cell :: "MapDimensions \<Rightarrow> 'a CReadMap \<Rightarrow> int \<Rightarrow> int \<Rightarrow> int \<Rightarrow> 'a" where
  "mip_cell d s i x y = mip_level s i ! nat (x + y * drop_bit (nat i) (mapx d))"

definition mip_avg_ok :: "('a::{plus,times}) Env \<Rightarrow> MapDimensions \<Rightarrow> 'a CReadMap \<Rightarrow> int \<Rightarrow> int \<Rightarrow> int \<Rightarrow> bool" where
  "mip_avg_ok E d s i cx cy \<longleftrightarrow>
     mip_cell d s (i + 1) cx cy =
       (mip_cell d s i (2 * cx) (2 * cy) + mip_cell d s i (2 * cx) (2 * cy + 1)
        + mip_cell d s i (2 * cx + 1) (2 * cy) + mip_cell d s i (2 * cx + 1) (2 * cy + 1))
       * lit_0_25 E"

text \<open>The block origins \<open>(x, y)\<close> the mip loop of level \<open>i\<close> visits for a rectangle.\<close>

definition mip_visited :: "SRectangle \<Rightarrow> int \<Rightarrow> int \<Rightarrow> int \<Rightarrow> bool" where
  "mip_visited rect i x y \<longleftrightarrow>
     (let sx = (drop_bit (nat i) (x1 rect)) AND (NOT 1);
          ex = drop_bit (nat i) (x2 rect);
          sy = (drop_bit (nat i) (z1 rect)) AND (NOT 1);
          ey = drop_bit (nat i) (z2 rect)
      in sy \<le> y \<and> y < ey \<and> 2 dvd (y - sy) \<and> sx \<le> x \<and> x < ex \<and> 2 dvd (x - sx))"

text \<open>The two face normals the face-normal loop computes for the square \<open>(x, y)\<close>, the
  state its body leaves in closed form, and the statement that the normals stored for the
  square are the computed ones.\<close>

definition fnTL_value :: "('a::{plus,minus,uminus}) Env \<Rightarrow> MapDimensions \<Rightarrow> 'a list \<Rightarrow> int \<Rightarrow> int \<Rightarrow> 'a float3" where
  "fnTL_value E d h x y =
     Normalize E (Float3 (- (corner d h (x + 1) y - corner d h x y)) (SQUARE_SIZE E)
                         (- (corner d h x (y + 1) - corner d h x y)))"

definition fnBR_value :: "('a::{plus,minus,uminus}) Env \<Rightarrow> MapDimensions \<Rightarrow> 'a list \<Rightarrow> int \<Rightarrow> int \<Rightarrow> 'a float3" where
  "fnBR_value E d h x y =
     Normalize E (Float3 (corner d h x (y + 1) - corner d h (x + 1) (y + 1)) (SQUARE_SIZE E)
                         (corner d h (x + 1) y - corner d h (x + 1) (y + 1)))"

definition face_write ::
  "('a::{plus,minus,uminus}) Env \<Rightarrow> MapDimensions \<Rightarrow> bool \<Rightarrow> int \<Rightarrow> int \<Rightarrow> 'a CReadMap \<Rightarrow> 'a CReadMap" where
  "face_write E d initialize x y s =
     (let k = y * mapx d + x;
          tl = fnTL_value E d (heightMapSynced s) x y;
          br = fnBR_value E d (heightMapSynced s) x y;
          s1 = s\<lparr>faceNormalsSynced := (faceNormalsSynced s)[nat (k * 2) := tl, nat (k * 2 + 1) := br],
                 centerNormalsSynced := (centerNormalsSynced s)[nat k := Normalize E (float3_add tl br)],
                 centerNormals2D := (centerNormals2D s)[nat k := Normalize2D E (float3_add tl br)]\<rparr>
      in if USE_UNSYNCED_HEIGHTMAP E \<and> initialize
         then s1\<lparr>faceNormalsUnsynced := (faceNormalsUnsynced s)[nat (k * 2) := tl, nat (k * 2 + 1) := br],
                 centerNormalsUnsynced := (centerNormalsUnsynced s)[nat k := Normalize E (float3_add tl br)]\<rparr>
         else s1)"

definition normals_ok ::
  "('a::{plus,minus,uminus}) Env \<Rightarrow> MapDimensions \<Rightarrow> bool \<Rightarrow> 'a CReadMap \<Rightarrow> int \<Rightarrow> int \<Rightarrow> bool" where
  "normals_ok E d initialize s x y \<longleftrightarrow>
     (let k = y * mapx d + x;
          tl = fnTL_value E d (heightMapSynced s) x y;
          br = fnBR_value E d (heightMapSynced s) x y
      in faceNormalsSynced s ! nat (k * 2) = tl
       \<and> faceNormalsSynced s ! nat (k * 2 + 1) = br
       \<and> centerNormalsSynced s ! nat k = Normalize E (float3_add tl br)
       \<and> centerNormals2D s ! nat k = Normalize2D E (float3_add tl br)
       \<and> (if USE_UNSYNCED_HEIGHTMAP E \<and> initialize
          then faceNormalsUnsynced s ! nat (k * 2) = tl
             \<and> faceNormalsUnsynced s ! nat (k * 2 + 1) = br
             \<and> centerNormalsUnsynced s ! nat k = Normalize E (float3_add tl br)
          else True))"

text \<open>The slope the slope loop computes for the slope-map cell \<open>(x, y)\<close> from a buffer
  of face normals.\<close>

definition slope_value ::
  "('a::{plus,minus,times,inverse,ord}) Env \<Rightarrow> MapDimensions \<Rightarrow> 'a float3 list \<Rightarrow> int \<Rightarrow> int \<Rightarrow> 'a" where
  "slope_value E d fn x y =
     (let idx0 = (y * 2    ) * (mapx d) + x * 2;
          idx1 = (y * 2 + 1) * (mapx d) + x * 2;
          n0 = fn ! nat ((idx0    ) * 2    );
          n1 = fn ! nat ((idx0    ) * 2 + 1);
          n2 = fn ! nat ((idx0 + 1) * 2    );
          n3 = fn ! nat ((idx0 + 1) * 2 + 1);
          n4 = fn ! nat ((idx1    ) * 2    );
          n5 = fn ! nat ((idx1    ) * 2 + 1);
          n6 = fn ! nat ((idx1 + 1) * 2    );
          n7 = fn ! nat ((idx1 + 1) * 2 + 1);
          avgslope = (lit_0 E + fy n0 + fy n1 + fy n2 + fy n3 + fy n4 + fy n5 + fy n6 + fy n7)
                       * lit_0_125 E;
          maxslope = std_min (std_min (std_min (std_min (std_min (std_min (std_min
                       (fy n0) (fy n1)) (fy n2)) (fy n3)) (fy n4)) (fy n5)) (fy n6)) (fy n7);
          lerp = maxslope / avgslope;
          slope = mix E maxslope avgslope lerp
      in lit_1 E - slope)"

text \<open>The rectangles the face-normal loop and the slope loop go through.\<close>

definition face_rect :: "MapDimensions \<Rightarrow> SRectangle \<Rightarrow> SRectangle" where
  "face_rect d rect = \<lparr>x1 = max 0 (x1 rect - 1), z1 = max 0 (z1 rect - 1),
                        x2 = min (mapxm1 d) (x2 rect + 1), z2 = min (mapym1 d) (z2 rect + 1)\<rparr>"

definition slope_rect :: "MapDimensions \<Rightarrow> SRectangle \<Rightarrow> SRectangle" where
  "slope_rect d rect = \<lparr>x1 = max 0 ((x1 rect sdiv 2) - 1), z1 = max 0 ((z1 rect sdiv 2) - 1),
                         x2 = min (hmapx d - 1) ((x2 rect sdiv 2) + 1),
                         z2 = min (hmapy d - 1) ((z2 rect sdiv 2) + 1)\<rparr>"

definition in_rect :: "SRectangle \<Rightarrow> int \<Rightarrow> int \<Rightarrow> bool" where
  "in_rect r x y \<longleftrightarrow> x1 r \<le> x \<and> x \<le> x2 r \<and> z1 r \<le> y \<and> y \<le> z2 r"

text \<open>What one run of the pipeline on the rectangle \<open>r\<close> establishes: every cell a
  derivation loop goes through holds the value the loop computes for it from the
  buffers as they are.\<close>

definition derived_ok ::
  "('a::{plus,minus,uminus,times,inverse,ord}) Env \<Rightarrow> MapDimensions \<Rightarrow> SRectangle \<Rightarrow> 'a CReadMap \<Rightarrow> bool" where
  "derived_ok E d r s \<longleftrightarrow>
     (\<forall>x y. in_rect (centerRect d r) x y \<longrightarrow>
        centerHeightMap s ! nat (y * mapx d + x) = center_value E d (heightMapSynced s) x y)
   \<and> (\<forall>i x y. 0 \<le> i \<and> i < numHeightMipMaps E - 1 \<and> mip_visited (centerRect d r) i x y \<longrightarrow>
        mip_avg_ok E d s i (x div 2) (y div 2))
   \<and> (\<forall>x y. in_rect (face_rect d (centerRect d r)) x y \<longrightarrow>
        normals_ok E d (r = \<lparr>x1 = 0, z1 = 0, x2 = mapx d, z2 = mapy d\<rparr>) s x y)
   \<and> (\<forall>x y. in_rect (slope_rect d (centerRect d r)) x y \<longrightarrow>
        slopeMap s ! nat (y * hmapx d + x) = slope_value E d (faceNormalsSynced s) x y)"

text \<open>The rectangle pushed on the update queue, and the rectangles one run appends.\<close>

definition cornerRect :: "MapDimensions \<Rightarrow> SRectangle \<Rightarrow> SRectangle" where
  "cornerRect d r = \<lparr>x1 = max (x1 r - 1) 0, z1 = max (z1 r - 1) 0,
                     x2 = min (x2 r + 1) (mapx d), z2 = min (z2 r + 1) (mapy d)\<rparr>"

definition pushed_rects :: "'a Env \<Rightarrow> MapDimensions \<Rightarrow> SRectangle \<Rightarrow> SRectangle list" where
  "pushed_rects E d r =
     (if USE_UNSYNCED_HEIGHTMAP E \<and> r \<noteq> \<lparr>x1 = 0, z1 = 0, x2 = mapx d, z2 = mapy d\<rparr>
      then HeightMapUpdateLOSCheck E (cornerRect d r) else [cornerRect d r])"

section \<open>An exact environment and concrete states\<close>

text \<open>
  Modelled from the spec: \<open>float3::Normalize\<close>, \<open>float3::Normalize2D\<close> and \<open>mix\<close> are
  declared in headers that are not part of the sources at hand. The spec has face normals
  of unit length and the blend \<open>mix(maxslope, avgslope, maxslope / avgslope)\<close> as a linear
  interpolation; here they are the division by the Euclidean length (the zero vector is
  left as it is, \<open>x / 0 = 0\<close>), the same in the x-z plane with the y component cleared,
  and \<open>v1 + (v2 - v1) * a\<close>.

  \<open>real_env\<close> evaluates the float expressions exactly, over the real numbers, with the
  constants of the engine: seven mip levels, \<open>SQUARE_SIZE = 8\<close>, \<open>GAME_SPEED = 30\<close>,
  four SIMD lanes, an unsynced height map, and no line-of-sight handler (every rectangle
  is pushed as it is).
\<close>

definition Normalize_exact :: "real float3 \<Rightarrow> real float3" where
  "Normalize_exact v =
     (let l = sqrt (fx v * fx v + fy v * fy v + fz v * fz v)
      in Float3 (fx v / l) (fy v / l) (fz v / l))"

definition Normalize2D_exact :: "real float3 \<Rightarrow> real float3" where
  "Normalize2D_exact v =
     (let l = sqrt (fx v * fx v + fz v * fz v)
      in Float3 (fx v / l) 0 (fz v / l))"

definition mix_exact :: "real \<Rightarrow> real \<Rightarrow> real \<Rightarrow> real" where
  "mix_exact v1 v2 a = v1 + (v2 - v1) * a"

definition real_env :: "real Env" where
  "real_env = \<lparr>numHeightMipMaps = 7, GAME_SPEED = 30, simdSize = 4, USE_UNSYNCED_HEIGHTMAP = True,
     SQUARE_SIZE = 8, lit_0 = 0, lit_1 = 1, lit_0_25 = 1 / 4, lit_0_125 = 1 / 8,
     flt_max = 340282346638528859811704183484516925440,
     flt_lowest = - 340282346638528859811704183484516925440,
     Normalize = Normalize_exact, Normalize2D = Normalize2D_exact, mix = mix_exact,
     HeightMapUpdateLOSCheck = (\<lambda>r. [r])\<rparr>"

text \<open>A state of a map of \<open>w\<close> by \<open>w\<close> squares with the corner heights \<open>hm\<close>, every derived
  buffer sized as \<open>Initialize\<close> sizes it, every face normal \<open>n\<close>, everything else zero.\<close>

definition sized_state :: "int \<Rightarrow> real list \<Rightarrow> real float3 \<Rightarrow> real CReadMap" where
  "sized_state w hm n =
     \<lparr>heightMapSynced = hm, mapFileHeightMap = hm, originalHeightMap = hm,
      centerHeightMap = replicate (nat (w * w)) 0,
      mipCenterHeightMaps = map (\<lambda>i. replicate (nat (drop_bit i w * drop_bit i w)) 0) [1..<7],
      visVertexNormals = replicate (nat ((w + 1) * (w + 1))) (Float3 0 0 0),
      faceNormalsSynced = replicate (nat (w * w * 2)) n,
      faceNormalsUnsynced = replicate (nat (w * w * 2)) n,
      centerNormalsSynced = replicate (nat (w * w)) n,
      centerNormalsUnsynced = replicate (nat (w * w)) n,
      centerNormals2D = replicate (nat (w * w)) (Float3 0 0 0),
      slopeMap = replicate (nat (drop_bit 1 w * drop_bit 1 w)) 0,
      typeMap = replicate (nat (drop_bit 1 w * drop_bit 1 w)) 0,
      unsyncedHeightMapUpdates = [],
      initHeightBounds = Float2 0 0, tempHeightBounds = Float2 0 0, currHeightBounds = Float2 0 0,
      processingHeightBounds = False, hmUpdated = False\<rparr>"

section \<open>What the bounds scans compute\<close>

text \<open>Statement helpers, for floats that are linearly ordered (no NaN): the pair a scan
  over the heights \<open>xs\<close> yields when it starts from the pair \<open>p\<close>, the same when it starts
  from the largest and the lowest float, and the state after \<open>k\<close> calls of a paced cycle
  that started in \<open>s\<close> with a mutation pending: the slices scanned so far are the first
  \<open>k * N / P\<close> heights.\<close>

definition scan_bounds :: "('a::linorder) float2 \<Rightarrow> 'a list \<Rightarrow> 'a float2" where
  "scan_bounds p xs = Float2 (Min (insert (f2x p) (set xs))) (Max (insert (f2y p) (set xs)))"

definition bounds_of :: "('a::linorder) Env \<Rightarrow> 'a list \<Rightarrow> 'a float2" where
  "bounds_of E xs = scan_bounds (Float2 (flt_max E) (flt_lowest E)) xs"

definition paced_state :: "('a::linorder) Env \<Rightarrow> MapDimensions \<Rightarrow> 'a CReadMap \<Rightarrow> int \<Rightarrow> 'a CReadMap" where
  "paced_state E d s k =
     s\<lparr>currHeightBounds := (if processingHeightBounds s then tempHeightBounds s else currHeightBounds s),
       processingHeightBounds := True,
       hmUpdated := False,
       tempHeightBounds :=
         bounds_of E (take (nat (k * (mapxp1 d * mapyp1 d) div GAME_SPEED E)) (heightMapSynced s))\<rparr>"

section \<open>Single precision with overflow\<close>

text \<open>
  A second type of floats, for what exact arithmetic cannot show: a \<open>float\<close> is a finite
  number, one of the two infinities or NaN. A finite result beyond the largest float
  overflows to an infinity, and the special values combine as in IEEE 754 (\<open>x / \<infinity> = 0\<close>,
  \<open>0 / 0\<close>, \<open>\<infinity> - \<infinity>\<close> and \<open>0 * \<infinity>\<close> are NaN, every comparison with NaN is false).
  Rounding is not modelled (finite results are exact) and the two zeros are one.
\<close>

datatype xfloat = Finite real | PosInf | NegInf | NaN

definition overflow :: "real \<Rightarrow> xfloat" where
  "overflow r =
     (if 340282346638528859811704183484516925440 < r then PosInf
      else if r < - 340282346638528859811704183484516925440 then NegInf
      else Finite r)"

instantiation xfloat :: "{plus, minus, uminus, times, inverse, ord}"
begin

fun uminus_xfloat :: "xfloat \<Rightarrow> xfloat" where
  "uminus_xfloat (Finite a) = Finite (- a)"
| "uminus_xfloat PosInf = NegInf"
| "uminus_xfloat NegInf = PosInf"
| "uminus_xfloat NaN = NaN"

fun plus_xfloat :: "xfloat \<Rightarrow> xfloat \<Rightarrow> xfloat" where
  "plus_xfloat (Finite a) (Finite b) = overflow (a + b)"
| "plus_xfloat NaN b = NaN"
| "plus_xfloat a NaN = NaN"
| "plus_xfloat PosInf NegInf = NaN"
| "plus_xfloat NegInf PosInf = NaN"
| "plus_xfloat PosInf b = PosInf"
| "plus_xfloat a PosInf = PosInf"
| "plus_xfloat NegInf b = NegInf"
| "plus_xfloat a NegInf = NegInf"

definition minus_xfloat :: "xfloat \<Rightarrow> xfloat \<Rightarrow> xfloat" where
  "minus_xfloat a b = a + (- b)"

fun times_xfloat :: "xfloat \<Rightarrow> xfloat \<Rightarrow> xfloat" where
  "times_xfloat (Finite a) (Finite b) = overflow (a * b)"
| "times_xfloat NaN b = NaN"
| "times_xfloat a NaN = NaN"
| "times_xfloat (Finite a) PosInf = (if a = 0 then NaN else if 0 < a then PosInf else NegInf)"
| "times_xfloat (Finite a) NegInf = (if a = 0 then NaN else if 0 < a then NegInf else PosInf)"
| "times_xfloat PosInf (Finite b) = (if b = 0 then NaN else if 0 < b then PosInf else NegInf)"
| "times_xfloat NegInf (Finite b) = (if b = 0 then NaN else if 0 < b then NegInf else PosInf)"
| "times_xfloat PosInf PosInf = PosInf"
| "times_xfloat PosInf NegInf = NegInf"
| "times_xfloat NegInf PosInf = NegInf"
| "times_xfloat NegInf NegInf = PosInf"

fun divide_xfloat :: "xfloat \<Rightarrow> xfloat \<Rightarrow> xfloat" where
  "divide_xfloat (Finite a) (Finite b) =
     (if b = 0 then (if a = 0 then NaN else if 0 < a then PosInf else NegInf)
      else overflow (a / b))"
| "divide_xfloat NaN b = NaN"
| "divide_xfloat a NaN = NaN"
| "divide_xfloat (Finite a) PosInf = Finite 0"
| "divide_xfloat (Finite a) NegInf = Finite 0"
| "divide_xfloat PosInf (Finite b) = (if 0 \<le> b then PosInf else NegInf)"
| "divide_xfloat NegInf (Finite b) = (if 0 \<le> b then NegInf else PosInf)"
| "divide_xfloat PosInf PosInf = NaN"
| "divide_xfloat PosInf NegInf = NaN"
| "divide_xfloat NegInf PosInf = NaN"
| "divide_xfloat NegInf NegInf = NaN"

fun inverse_xfloat :: "xfloat \<Rightarrow> xfloat" where
  "inverse_xfloat (Finite b) = (if b = 0 then PosInf else overflow (1 / b))"
| "inverse_xfloat PosInf = Finite 0"
| "inverse_xfloat NegInf = Finite 0"
| "inverse_xfloat NaN = NaN"

fun less_xfloat :: "xfloat \<Rightarrow> xfloat \<Rightarrow> bool" where
  "less_xfloat (Finite a) (Finite b) \<longleftrightarrow> a < b"
| "less_xfloat NaN b \<longleftrightarrow> False"
| "less_xfloat a NaN \<longleftrightarrow> False"
| "less_xfloat a NegInf \<longleftrightarrow> False"
| "less_xfloat PosInf b \<longleftrightarrow> False"
| "less_xfloat NegInf b \<longleftrightarrow> True"
| "less_xfloat a PosInf \<longleftrightarrow> True"

fun less_eq_xfloat :: "xfloat \<Rightarrow> xfloat \<Rightarrow> bool" where
  "less_eq_xfloat (Finite a) (Finite b) \<longleftrightarrow> a \<le> b"
| "less_eq_xfloat NaN b \<longleftrightarrow> False"
| "less_eq_xfloat a NaN \<longleftrightarrow> False"
| "less_eq_xfloat NegInf b \<longleftrightarrow> True"
| "less_eq_xfloat a PosInf \<longleftrightarrow> True"
| "less_eq_xfloat a NegInf \<longleftrightarrow> False"
| "less_eq_xfloat PosInf b \<longleftrightarrow> False"

instance ..

end

text \<open>The square root: NaN below zero, infinite at infinity.\<close>

fun xsqrt :: "xfloat \<Rightarrow> xfloat" where
  "xsqrt (Finite a) = (if a < 0 then NaN else Finite (sqrt a))"
| "xsqrt PosInf = PosInf"
| "xsqrt NegInf = NaN"
| "xsqrt NaN = NaN"

text \<open>
  Modelled from the spec: \<open>float3::Normalize\<close>, \<open>float3::Normalize2D\<close> and \<open>mix\<close>, declared in
  headers that are not part of the sources at hand, as in the exact environment (division
  by the Euclidean length, linear interpolation), here in the arithmetic with overflow.
  \<open>ieee_env\<close> has the constants of \<open>real_env\<close>.
\<close>

definition Normalize_ieee :: "xfloat float3 \<Rightarrow> xfloat float3" where
  "Normalize_ieee v =
     (let l = xsqrt (fx v * fx v + fy v * fy v + fz v * fz v)
      in Float3 (fx v / l) (fy v / l) (fz v / l))"

definition Normalize2D_ieee :: "xfloat float3 \<Rightarrow> xfloat float3" where
  "Normalize2D_ieee v =
     (let l = xsqrt (fx v * fx v + fz v * fz v)
      in Float3 (fx v / l) (Finite 0) (fz v / l))"

definition mix_ieee :: "xfloat \<Rightarrow> xfloat \<Rightarrow> xfloat \<Rightarrow> xfloat" where
  "mix_ieee v1 v2 a = v1 + (v2 - v1) * a"

definition ieee_env :: "xfloat Env" where
  "ieee_env = \<lparr>numHeightMipMaps = 7, GAME_SPEED = 30, simdSize = 4, USE_UNSYNCED_HEIGHTMAP = True,
     SQUARE_SIZE = Finite 8, lit_0 = Finite 0, lit_1 = Finite 1, lit_0_25 = Finite (1 / 4),
     lit_0_125 = Finite (1 / 8),
     flt_max = Finite 340282346638528859811704183484516925440,
     flt_lowest = Finite (- 340282346638528859811704183484516925440),
     Normalize = Normalize_ieee, Normalize2D = Normalize2D_ieee, mix = mix_ieee,
     HeightMapUpdateLOSCheck = (\<lambda>r. [r])\<rparr>"

text \<open>The object as the map loader hands it to \<open>Initialize\<close>: the synced corner heights
  are set, every other buffer is still empty, the bounds hold \<open>z\<close>.\<close>

definition loaded_state :: "'a list \<Rightarrow> 'a \<Rightarrow> 'a CReadMap" where
  "loaded_state hm z =
     \<lparr>heightMapSynced = hm, mapFileHeightMap = [], originalHeightMap = [],
      centerHeightMap = [], mipCenterHeightMaps = [], visVertexNormals = [],
      faceNormalsSynced = [], faceNormalsUnsynced = [],
      centerNormalsSynced = [], centerNormalsUnsynced = [], centerNormals2D = [],
      slopeMap = [], typeMap = [], unsyncedHeightMapUpdates = [],
      initHeightBounds = Float2 z z, tempHeightBounds = Float2 z z, currHeightBounds = Float2 z z,
      processingHeightBounds = False, hmUpdated = False\<rparr>"
section \<open>Rules for buffers and loops\<close>

lemma rd_Some: "0 \<le> i \<Longrightarrow> i < int (length buf) \<Longrightarrow> rd buf i = Some (buf ! nat i)"
  by (simp add: rd_def)

lemma wr_Some: "0 \<le> i \<Longrightarrow> i < int (length buf) \<Longrightarrow> wr buf i v = Some (buf[nat i := v])"
  by (simp add: wr_def)

lemma for_step_rule:
  assumes "0 < k" "I i s"
    and "\<And>j t. i \<le> j \<Longrightarrow> j < n \<Longrightarrow> k dvd (j - i) \<Longrightarrow> I j t \<Longrightarrow> \<exists>t'. body j t = Some t' \<and> I (j + k) t'"
  shows "\<exists>s' j. for_step k i n body s = Some s' \<and> I j s' \<and> i \<le> j \<and> n \<le> j \<and> k dvd (j - i)
           \<and> (if i < n then j < n + k else j = i)"
  using assms(2,3)
proof (induction "nat (n - i)" arbitrary: i s rule: less_induct)
  case less
  show ?case
  proof (cases "i < n")
    case False
    then show ?thesis using less.prems(1) by (subst for_step.simps) (auto intro!: exI[of _ i])
  next
    case True
    from less.prems(2)[OF order_refl True _ less.prems(1)]
    obtain t' where t': "body i s = Some t'" "I (i + k) t'" by auto
    have "\<exists>s' j. for_step k (i + k) n body t' = Some s' \<and> I j s' \<and> i + k \<le> j \<and> n \<le> j \<and> k dvd (j - (i + k))
            \<and> (if i + k < n then j < n + k else j = i + k)"
    proof (rule less.hyps[OF _ t'(2)])
      show "nat (n - (i + k)) < nat (n - i)" using True assms(1) by linarith
    next
      fix j t assume a: "i + k \<le> j" "j < n" "k dvd j - (i + k)" "I j t"
      have "k dvd (j - (i + k)) + k" using a(3) by (rule dvd_add) simp
      then have "k dvd (j - i)" by (simp add: algebra_simps)
      then show "\<exists>t'. body j t = Some t' \<and> I (j + k) t'"
        using less.prems(2)[of j t] a assms(1) by simp
    qed
    then obtain s' j where r: "for_step k (i + k) n body t' = Some s'" "I j s'" "i + k \<le> j" "n \<le> j"
        "k dvd (j - (i + k))" "if i + k < n then j < n + k else j = i + k"
      by blast
    have "k dvd (j - (i + k)) + k" using r(5) by (rule dvd_add) simp
    then have "k dvd (j - i)" by (simp add: algebra_simps)
    moreover have "for_step k i n body s = Some s'"
      using True assms(1) t'(1) r(1) by (subst for_step.simps) simp
    moreover have "j < n + k" using r(6) True by (auto split: if_splits)
    ultimately show ?thesis using r(2,3,4) True assms(1) by (intro exI[of _ s'] exI[of _ j]) simp
  qed
qed

lemma for_loop_rule:
  assumes "I i s"
    and "\<And>j t. i \<le> j \<Longrightarrow> j < n \<Longrightarrow> I j t \<Longrightarrow> \<exists>t'. body j t = Some t' \<and> I (j + 1) t'"
  shows "\<exists>s'. for_step 1 i n body s = Some s' \<and> I (max i n) s'"
proof -
  have "\<exists>s' j. for_step 1 i n body s = Some s' \<and> I j s' \<and> i \<le> j \<and> n \<le> j \<and> 1 dvd (j - i)
           \<and> (if i < n then j < n + 1 else j = i)"
    by (rule for_step_rule[where I = I]) (use assms in auto)
  then obtain s' j where r: "for_step 1 i n body s = Some s'" "I j s'" "i \<le> j" "n \<le> j"
      "if i < n then j < n + 1 else j = i" by blast
  have "j = max i n" using r(3,4,5) by (auto split: if_splits)
  then show ?thesis using r by auto
qed

lemma for_step_all:
  assumes k: "0 < k" and inv: "Inv s"
    and step: "\<And>j t. \<lbrakk>i \<le> j; j < n; k dvd (j - i); Inv t\<rbrakk> \<Longrightarrow> \<exists>t'. body j t = Some t' \<and> Inv t' \<and> P j t'"
    and pres: "\<And>j x t t'. \<lbrakk>i \<le> x; x < j; j < n; k dvd (x - i); k dvd (j - i); Inv t; P x t; body j t = Some t'\<rbrakk> \<Longrightarrow> P x t'"
  shows "\<exists>s'. for_step k i n body s = Some s' \<and> Inv s' \<and> (\<forall>x. i \<le> x \<and> x < n \<and> k dvd (x - i) \<longrightarrow> P x s')"
proof -
  let ?I = "\<lambda>j t. Inv t \<and> (\<forall>x. i \<le> x \<and> x < j \<and> k dvd (x - i) \<longrightarrow> P x t)"
  have "\<exists>s' j. for_step k i n body s = Some s' \<and> ?I j s' \<and> i \<le> j \<and> n \<le> j \<and> k dvd (j - i)
          \<and> (if i < n then j < n + k else j = i)"
  proof (rule for_step_rule[OF k])
    show "?I i s" using inv by auto
  next
    fix j t assume a: "i \<le> j" "j < n" "k dvd (j - i)" "?I j t"
    from step[OF a(1,2,3)] a(4) obtain t' where t': "body j t = Some t'" "Inv t'" "P j t'" by blast
    have "P x t'" if x: "i \<le> x" "x < j + k" "k dvd (x - i)" for x
    proof (cases "x < j")
      case True
      then show ?thesis using pres[OF x(1) True a(2) x(3) a(3) _ _ t'(1)] a(4) x by blast
    next
      case False
      have "k dvd (x - i) - (j - i)" using x(3) a(3) by (rule dvd_diff)
      then have "k dvd (x - j)" by simp
      then have "x - j \<le> 0" using x(2) zdvd_imp_le[of k "x - j"] by linarith
      then have "x = j" using False by simp
      then show ?thesis using t'(3) by simp
    qed
    then show "\<exists>t'. body j t = Some t' \<and> ?I (j + k) t'" using t' by blast
  qed
  then show ?thesis by (meson order_less_le_trans)
qed

lemma for_rect_rule:
  assumes kx: "0 < kx" and ky: "0 < ky" and inv: "Inv s"
    and step: "\<And>x y t. \<lbrakk>ya \<le> y; y < yb; ky dvd (y - ya); xa \<le> x; x < xb; kx dvd (x - xa); Inv t\<rbrakk>
        \<Longrightarrow> \<exists>t'. body x y t = Some t' \<and> Inv t' \<and> P x y t'"
    and pres: "\<And>x y x' y' t t'. \<lbrakk>ya \<le> y; y < yb; ky dvd (y - ya); xa \<le> x; x < xb; kx dvd (x - xa);
         ya \<le> y'; y' < yb; ky dvd (y' - ya); xa \<le> x'; x' < xb; kx dvd (x' - xa);
         x' \<noteq> x \<or> y' \<noteq> y; Inv t; P x' y' t; body x y t = Some t'\<rbrakk> \<Longrightarrow> P x' y' t'"
  shows "\<exists>s'. for_step ky ya yb (\<lambda>y. for_step kx xa xb (\<lambda>x. body x y)) s = Some s' \<and> Inv s' \<and>
           (\<forall>x y. ya \<le> y \<and> y < yb \<and> ky dvd (y - ya) \<and> xa \<le> x \<and> x < xb \<and> kx dvd (x - xa) \<longrightarrow> P x y s')"
proof -
  let ?PO = "\<lambda>y t. \<forall>x. xa \<le> x \<and> x < xb \<and> kx dvd (x - xa) \<longrightarrow> P x y t"
  have "\<exists>s'. for_step ky ya yb (\<lambda>y. for_step kx xa xb (\<lambda>x. body x y)) s = Some s' \<and> Inv s' \<and>
          (\<forall>y. ya \<le> y \<and> y < yb \<and> ky dvd (y - ya) \<longrightarrow> ?PO y s')"
  proof (rule for_step_all[where Inv = Inv and P = ?PO, OF ky inv])
    fix y t assume y: "ya \<le> y" "y < yb" "ky dvd (y - ya)" and t: "Inv t"
    show "\<exists>t'. for_step kx xa xb (\<lambda>x. body x y) t = Some t' \<and> Inv t' \<and> ?PO y t'"
    proof (rule for_step_all[where Inv = Inv and P = "\<lambda>x. P x y", OF kx t])
      fix x u assume "xa \<le> x" "x < xb" "kx dvd (x - xa)" "Inv u"
      then show "\<exists>t'. body x y u = Some t' \<and> Inv t' \<and> P x y t'" using step y by blast
    next
      fix j x u u' assume "xa \<le> x" "x < j" "j < xb" "kx dvd (x - xa)" "kx dvd (j - xa)" "Inv u" "P x y u" "body j y u = Some u'"
      then show "P x y u'" using pres[of y j y x u u'] y by simp
    qed
  next
    fix y y' t t'
    assume y: "ya \<le> y'" "y' < y" "y < yb" "ky dvd (y' - ya)" "ky dvd (y - ya)"
      and t: "Inv t" "?PO y' t" "for_step kx xa xb (\<lambda>x. body x y) t = Some t'"
    let ?I = "\<lambda>(j::int) u. Inv u \<and> ?PO y' u"
    have "\<exists>s' j. for_step kx xa xb (\<lambda>x. body x y) t = Some s' \<and> ?I j s' \<and> xa \<le> j \<and> xb \<le> j \<and> kx dvd (j - xa)
            \<and> (if xa < xb then j < xb + kx else j = xa)"
    proof (rule for_step_rule[where I = ?I, OF kx])
      show "?I xa t" using t by simp
    next
      fix j u assume j: "xa \<le> j" "j < xb" "kx dvd (j - xa)" and u: "?I j u"
      from step[of y j u] y j u obtain u' where u': "body j y u = Some u'" "Inv u'" by auto
      have "P x y' u'" if "xa \<le> x" "x < xb" "kx dvd (x - xa)" for x
        using pres[of y j y' x u u'] y j u u' that by simp
      then show "\<exists>t'. body j y u = Some t' \<and> ?I (j + kx) t'" using u' by blast
    qed
    then show "?PO y' t'" using t(3) by auto
  qed
  then show ?thesis by blast
qed

lemma for_rect_id:
  assumes kx: "0 < kx" and ky: "0 < ky"
    and "\<And>x y. \<lbrakk>ya \<le> y; y < yb; ky dvd (y - ya); xa \<le> x; x < xb; kx dvd (x - xa)\<rbrakk> \<Longrightarrow> body x y s = Some s"
  shows "for_step ky ya yb (\<lambda>y. for_step kx xa xb (\<lambda>x. body x y)) s = Some s"
proof -
  have "\<exists>s'. for_step ky ya yb (\<lambda>y. for_step kx xa xb (\<lambda>x. body x y)) s = Some s' \<and> s' = s \<and>
           (\<forall>x y. ya \<le> y \<and> y < yb \<and> ky dvd (y - ya) \<and> xa \<le> x \<and> x < xb \<and> kx dvd (x - xa) \<longrightarrow> True)"
    by (rule for_rect_rule[OF kx ky, where Inv = "\<lambda>t. t = s" and P = "\<lambda>x y t. True"]) (use assms in auto)
  then show ?thesis by simp
qed

lemma idx_bounds:
  fixes x y W H :: int
  assumes "0 \<le> x" "x < W" "0 \<le> y" "y < H"
  shows "0 \<le> y * W + x" "y * W + x < W * H"
proof -
  show "0 \<le> y * W + x" using assms by simp
  have "y * W + x < y * W + W" using assms by simp
  also have "\<dots> = (y + 1) * W" by (simp add: algebra_simps)
  also have "\<dots> \<le> H * W" using assms by (intro mult_right_mono) auto
  finally show "y * W + x < W * H" by (simp add: mult.commute)
qed

lemma idx_inj:
  fixes x y x' y' W :: int
  assumes "0 \<le> x" "x < W" "0 \<le> x'" "x' < W" "y * W + x = y' * W + x'"
  shows "x = x' \<and> y = y'"
proof -
  have "x = (y * W + x) mod W" using assms(1,2) by simp
  also have "\<dots> = (y' * W + x') mod W" using assms(5) by simp
  also have "\<dots> = x'" using assms(3,4) by simp
  finally have x: "x = x'" .
  have "y = (y * W + x) div W" using assms(1,2) by simp
  also have "\<dots> = (y' * W + x') div W" using assms(5) by simp
  also have "\<dots> = y'" using assms(3,4) by simp
  finally show ?thesis using x by simp
qed

section \<open>Shifts, masks and truncating division\<close>

lemma and_not_one: "(x::int) AND NOT 1 = 2 * (x div 2)"
proof (rule bit_eqI)
  fix n show "bit (x AND NOT 1) n = bit (2 * (x div 2)) n"
  proof (cases n)
    case 0
    show ?thesis unfolding 0 bit_and_iff bit_not_int_iff bit_1_iff by (simp add: bit_0)
  next
    case (Suc m)
    show ?thesis unfolding Suc bit_and_iff bit_not_int_iff bit_1_iff by (simp add: bit_Suc)
  qed
qed

lemma drop_bit_int: "drop_bit n (x::int) = x div 2 ^ n"
  by (rule drop_bit_eq_div)

lemma sdiv2_nonneg: "0 \<le> (x::int) \<Longrightarrow> x sdiv 2 = x div 2"
  by (simp add: signed_divide_int_def sgn_if)

lemma shr_m1:
  fixes m :: int
  assumes "2 ^ n dvd m" "0 < m"
  shows "(m - 1) div 2 ^ n = m div 2 ^ n - 1"
proof -
  from assms(1) obtain q where q: "m = 2 ^ n * q" by (auto simp: dvd_def)
  have "(m - 1) div 2 ^ n = ((q - 1) * 2 ^ n + (2 ^ n - 1)) div 2 ^ n"
    by (simp add: q algebra_simps)
  also have "\<dots> = q - 1 + (2 ^ n - 1) div 2 ^ n"
    by (subst div_mult_self3) simp_all
  also have "(2 ^ n - 1 :: int) div 2 ^ n = 0" by (simp add: div_pos_pos_trivial)
  finally show ?thesis by (simp add: q)
qed

section \<open>Center heights\<close>

lemma wr_same: "0 \<le> i \<Longrightarrow> i < int (length buf) \<Longrightarrow> buf ! nat i = v \<Longrightarrow> wr buf i v = Some buf"
  by (auto simp: wr_def)

lemma rd_corner:
  assumes "int (length h) = mapxp1 d * mapyp1 d" "0 \<le> x" "x \<le> mapx d" "0 \<le> y" "y \<le> mapy d"
    and "i = y * mapxp1 d + x"
  shows "rd h i = Some (corner d h x y)"
proof -
  have "0 \<le> y * mapxp1 d + x" "y * mapxp1 d + x < mapxp1 d * mapyp1 d"
    using assms(2-5) by (auto intro!: idx_bounds simp: mapxp1_def mapyp1_def)
  then show ?thesis using assms(1,6) by (simp add: rd_def corner_def)
qed

lemma center_idx:
  assumes "0 \<le> x" "x < mapx d" "0 \<le> y" "y < mapy d"
  shows "0 \<le> y * mapx d + x" "y * mapx d + x < mapx d * mapy d"
  using assms by (auto intro!: idx_bounds)

lemma center_idx_inj:
  assumes "0 \<le> x" "x < mapx d" "0 \<le> x'" "x' < mapx d" "0 \<le> y" "0 \<le> y'" "x' \<noteq> x \<or> y' \<noteq> y"
  shows "nat (y' * mapx d + x') \<noteq> nat (y * mapx d + x)"
proof
  assume "nat (y' * mapx d + x') = nat (y * mapx d + x)"
  moreover have "0 \<le> y' * mapx d + x'" "0 \<le> y * mapx d + x" using assms by simp_all
  ultimately have "y' * mapx d + x' = y * mapx d + x" by linarith
  from idx_inj[OF assms(3,4,1,2) this] assms(7) show False by simp
qed

lemma center_body:
  assumes ok: "buffers_ok E d s" and h: "heightMapSynced t = heightMapSynced s"
    and len: "length (centerHeightMap t) = length (centerHeightMap s)"
    and x: "0 \<le> x" "x < mapx d" and y: "0 \<le> y" "y < mapy d"
  shows "UpdateCenterHeightmap_body E d y x t
       = Some (t\<lparr>centerHeightMap := (centerHeightMap t)[nat (y * mapx d + x) := center_value E d (heightMapSynced s) x y]\<rparr>)"
proof -
  have L: "int (length (heightMapSynced s)) = mapxp1 d * mapyp1 d"
    "int (length (centerHeightMap s)) = mapx d * mapy d"
    using ok by (simp_all add: buffers_ok_def)
  have r: "rd (heightMapSynced s) ((y + 0) * mapxp1 d + x + 0) = Some (corner d (heightMapSynced s) x y)"
    "rd (heightMapSynced s) ((y + 0) * mapxp1 d + x + 1) = Some (corner d (heightMapSynced s) (x + 1) y)"
    "rd (heightMapSynced s) ((y + 1) * mapxp1 d + x + 0) = Some (corner d (heightMapSynced s) x (y + 1))"
    "rd (heightMapSynced s) ((y + 1) * mapxp1 d + x + 1) = Some (corner d (heightMapSynced s) (x + 1) (y + 1))"
    using x y by (auto intro!: rd_corner[OF L(1)])
  have w: "wr (centerHeightMap t) (y * mapx d + x) v = Some ((centerHeightMap t)[nat (y * mapx d + x) := v])" for v
    using center_idx[OF x y] L(2) len by (intro wr_Some) simp_all
  show ?thesis unfolding UpdateCenterHeightmap_body_def Let_def h r w by (simp add: center_value_def)
qed

lemma UpdateCenterHeightmap_post:
  assumes ok: "buffers_ok E d s" and r: "rect_ok d rect"
  shows "\<exists>s'. UpdateCenterHeightmap E d rect ini s = Some s'
      \<and> (\<exists>c. s' = s\<lparr>centerHeightMap := c\<rparr> \<and> length c = length (centerHeightMap s))
      \<and> (\<forall>x y. z1 rect \<le> y \<and> y \<le> z2 rect \<and> x1 rect \<le> x \<and> x \<le> x2 rect \<longrightarrow>
            centerHeightMap s' ! nat (y * mapx d + x) = center_value E d (heightMapSynced s) x y)"
proof -
  let ?Inv = "\<lambda>t. \<exists>c. t = s\<lparr>centerHeightMap := c\<rparr> \<and> length c = length (centerHeightMap s)"
  let ?P = "\<lambda>x y t. centerHeightMap t ! nat (y * mapx d + x) = center_value E d (heightMapSynced s) x y"
  have L: "int (length (centerHeightMap s)) = mapx d * mapy d"
    using ok by (simp add: buffers_ok_def)
  have rng: "0 \<le> x \<and> x < mapx d \<and> 0 \<le> y \<and> y < mapy d"
    if "z1 rect \<le> y" "y < z2 rect + 1" "x1 rect \<le> x" "x < x2 rect + 1" for x y
    using that r by (auto simp: rect_ok_def mapxm1_def mapym1_def)
  have "\<exists>s'. UpdateCenterHeightmap E d rect ini s = Some s' \<and> ?Inv s' \<and>
     (\<forall>x y. z1 rect \<le> y \<and> y < z2 rect + 1 \<and> 1 dvd (y - z1 rect) \<and> x1 rect \<le> x \<and> x < x2 rect + 1 \<and> 1 dvd (x - x1 rect) \<longrightarrow> ?P x y s')"
    unfolding UpdateCenterHeightmap_def
  proof (rule for_rect_rule[where Inv = ?Inv and P = ?P], goal_cases)
    case 3
    show ?case by (intro exI[of _ "centerHeightMap s"]) simp
  next
    case (4 x y t)
    from 4(7) obtain c where c: "t = s\<lparr>centerHeightMap := c\<rparr>" "length c = length (centerHeightMap s)" by blast
    note b = rng[OF 4(1,2,4,5)]
    have i: "nat (y * mapx d + x) < length c" using center_idx[of x d y] b L c(2) by linarith
    show ?case using center_body[OF ok, of t x y] b c i by auto
  next
    case (5 x y x' y' t t')
    from 5(14) obtain c where c: "t = s\<lparr>centerHeightMap := c\<rparr>" "length c = length (centerHeightMap s)" by blast
    note b = rng[OF 5(1,2,4,5)] and b' = rng[OF 5(7,8,10,11)]
    have "t' = t\<lparr>centerHeightMap := (centerHeightMap t)[nat (y * mapx d + x) := center_value E d (heightMapSynced s) x y]\<rparr>"
      using 5(16) center_body[OF ok, of t x y] b c by simp
    moreover have "nat (y' * mapx d + x') \<noteq> nat (y * mapx d + x)"
      using center_idx_inj[of x d x' y y'] b b' 5(13) by blast
    ultimately show ?case using 5(15) by simp
  qed simp_all
  then show ?thesis by (auto simp: zless_add1_eq)
qed

lemma UpdateCenterHeightmap_idem:
  assumes ok: "buffers_ok E d s" and r: "rect_ok d rect"
    and post: "\<forall>x y. z1 rect \<le> y \<and> y \<le> z2 rect \<and> x1 rect \<le> x \<and> x \<le> x2 rect \<longrightarrow>
            centerHeightMap s ! nat (y * mapx d + x) = center_value E d (heightMapSynced s) x y"
  shows "UpdateCenterHeightmap E d rect ini s = Some s"
  unfolding UpdateCenterHeightmap_def
proof (rule for_rect_id, goal_cases)
  case (3 x y)
  then have b: "0 \<le> x" "x < mapx d" "0 \<le> y" "y < mapy d"
    using r by (auto simp: rect_ok_def mapxm1_def mapym1_def)
  have "centerHeightMap s ! nat (y * mapx d + x) = center_value E d (heightMapSynced s) x y"
    using post 3 by simp
  from this[symmetric] show ?case using center_body[OF ok refl refl b] by simp
qed simp_all

section \<open>The mip pyramid\<close>

lemma level_length:
  assumes ok: "buffers_ok E d t" and i: "0 \<le> i" "i < numHeightMipMaps E"
  shows "int (length (mip_level t i)) = drop_bit (nat i) (mapx d) * drop_bit (nat i) (mapy d)"
proof (cases "i = 0")
  case True
  then show ?thesis using ok by (simp add: mip_level_def buffers_ok_def)
next
  case False
  then have "1 \<le> i" using i by simp
  then show ?thesis using ok i False by (simp add: mip_level_def buffers_ok_def)
qed

lemma level_ptr:
  assumes ok: "buffers_ok E d t" and i: "0 \<le> i" "i < numHeightMipMaps E"
  shows "mipPointerHeightMaps t i = Some (mip_level t i)"
  using assms by (auto simp: mipPointerHeightMaps_def mip_level_def buffers_ok_def rd_def)

lemma dvd_level:
  assumes ok: "buffers_ok E d t" and i: "0 \<le> i" "i < numHeightMipMaps E"
  shows "2 ^ nat i dvd mapx d" "2 ^ nat i dvd mapy d"
proof -
  have "nat i \<le> nat (numHeightMipMaps E - 1)" using i by simp
  then have "(2::int) ^ nat i dvd 2 ^ nat (numHeightMipMaps E - 1)" by (rule le_imp_power_dvd)
  then show "2 ^ nat i dvd mapx d" "2 ^ nat i dvd mapy d"
    using ok by (auto simp: buffers_ok_def intro: dvd_trans)
qed

lemma half_level:
  fixes m :: int
  assumes "2 ^ Suc n dvd m"
  shows "m div 2 ^ n = 2 * (m div 2 ^ Suc n)"
proof -
  from assms obtain q where q: "m = 2 ^ Suc n * q" by (auto simp: dvd_def)
  have "m div 2 ^ n = 2 * q" unfolding q by simp
  moreover have "m div 2 ^ Suc n = q" unfolding q by simp
  ultimately show ?thesis by simp
qed


lemma mip_body:
  assumes ok: "buffers_ok E d t" and i: "0 \<le> i" "i < numHeightMipMaps E - 1"
    and x: "0 \<le> x" "x + 1 < drop_bit (nat i) (mapx d)" "even x"
    and y: "0 \<le> y" "y + 1 < drop_bit (nat i) (mapy d)" "even y"
  shows "UpdateMipHeightmaps_body E i (drop_bit (nat i) (mapx d)) y x t =
     Some (t\<lparr>mipCenterHeightMaps := (mipCenterHeightMaps t)
        [nat i := (mipCenterHeightMaps t ! nat i)
           [nat (x div 2 + (y div 2) * drop_bit (nat (i + 1)) (mapx d)) :=
              (mip_cell d t i x y + mip_cell d t i x (y + 1)
               + mip_cell d t i (x + 1) y + mip_cell d t i (x + 1) (y + 1)) * lit_0_25 E]]\<rparr>)"
proof -
  let ?W = "drop_bit (nat i) (mapx d)" and ?H = "drop_bit (nat i) (mapy d)"
  let ?W2 = "drop_bit (nat (i + 1)) (mapx d)" and ?H2 = "drop_bit (nat (i + 1)) (mapy d)"
  let ?top = "mip_level t i"
  have i': "i < numHeightMipMaps E" "0 \<le> i + 1" "i + 1 < numHeightMipMaps E" using i by simp_all
  have S: "nat (i + 1) = Suc (nat i)" using i by simp
  have lt: "int (length ?top) = ?W * ?H" by (rule level_length[OF ok i(1) i'(1)])
  have ptr: "mipPointerHeightMaps t i = Some ?top" by (rule level_ptr[OF ok i(1) i'(1)])
  have W: "?W = 2 * ?W2" and H: "?H = 2 * ?H2"
    using dvd_level[OF ok i'(2,3)] half_level[of "nat i"] by (simp_all add: S drop_bit_eq_div)
  have rdt: "rd ?top (a + b * ?W) = Some (mip_cell d t i a b)"
    if "0 \<le> a" "a < ?W" "0 \<le> b" "b < ?H" for a b
  proof -
    have "0 \<le> b * ?W + a" "b * ?W + a < ?W * ?H" using that by (auto intro!: idx_bounds)
    then show ?thesis using lt by (simp add: rd_def mip_cell_def add.commute)
  qed
  have r: "rd ?top (x + y * ?W) = Some (mip_cell d t i x y)"
    "rd ?top (x + (y + 1) * ?W) = Some (mip_cell d t i x (y + 1))"
    "rd ?top (x + 1 + y * ?W) = Some (mip_cell d t i (x + 1) y)"
    "rd ?top (x + 1 + (y + 1) * ?W) = Some (mip_cell d t i (x + 1) (y + 1))"
    using x y by (auto intro!: rdt)
  have xh: "0 \<le> x div 2" "x div 2 < ?W2" using x W by auto
  have yh: "0 \<le> y div 2" "y div 2 < ?H2" using y H by auto
  have "((y div 2) * ?W) div 2 = (2 * ((y div 2) * ?W2)) div 2" by (subst W) (simp add: mult.left_commute)
  then have "((y div 2) * ?W) div 2 = (y div 2) * ?W2" by (simp only: nonzero_mult_div_cancel_left[of 2])
  moreover have "0 \<le> ?W" using x by linarith
  then have "0 \<le> (y div 2) * ?W" using yh(1) by (intro mult_nonneg_nonneg)
  ultimately have idx: "(x sdiv 2) + (y sdiv 2) * ?W sdiv 2 = x div 2 + (y div 2) * ?W2"
    using x(1) y(1) by (simp add: sdiv2_nonneg)
  have wb: "0 \<le> x div 2 + (y div 2) * ?W2" "x div 2 + (y div 2) * ?W2 < ?W2 * ?H2"
    using idx_bounds[OF xh yh] by (simp_all add: add.commute)
  have ll: "int (length (mipCenterHeightMaps t)) = numHeightMipMaps E - 1"
    "int (length (mipCenterHeightMaps t ! nat i)) = ?W2 * ?H2"
    using ok i by (auto simp: buffers_ok_def dest!: spec[of _ "i + 1"])
  have st: "mip_store t (i + 1) (x div 2 + (y div 2) * ?W2) v =
      Some (t\<lparr>mipCenterHeightMaps := (mipCenterHeightMaps t)
        [nat i := (mipCenterHeightMaps t ! nat i)[nat (x div 2 + (y div 2) * ?W2) := v]]\<rparr>)" for v
    using i ll wb by (simp add: mip_store_def rd_def wr_def)
  show ?thesis
    unfolding UpdateMipHeightmaps_body_def ptr idx by (simp add: r st)
qed

lemma mip_write_props:
  assumes ok: "buffers_ok E d t" and i: "0 \<le> i" "i < numHeightMipMaps E - 1"
    and t': "t' = t\<lparr>mipCenterHeightMaps := (mipCenterHeightMaps t)[nat i := (mipCenterHeightMaps t ! nat i)[k := v]]\<rparr>"
  shows "buffers_ok E d t'"
    and "\<And>j. 0 \<le> j \<Longrightarrow> j \<noteq> i + 1 \<Longrightarrow> mip_level t' j = mip_level t j"
    and "mip_level t' (i + 1) = (mipCenterHeightMaps t ! nat i)[k := v]"
proof -
  have "int (length (mipCenterHeightMaps t)) = numHeightMipMaps E - 1"
    using ok by (simp add: buffers_ok_def)
  then have ll: "nat i < length (mipCenterHeightMaps t)" using i by linarith
  show "buffers_ok E d t'"
    using ok ll unfolding buffers_ok_def t' by (auto simp: nth_list_update)
  show "mip_level t' j = mip_level t j" if "0 \<le> j" "j \<noteq> i + 1" for j
  proof (cases "j = 0")
    case True then show ?thesis by (simp add: mip_level_def t')
  next
    case False
    then have "nat (j - 1) \<noteq> nat i" using that i by linarith
    then show ?thesis using False by (simp add: mip_level_def t')
  qed
  show "mip_level t' (i + 1) = (mipCenterHeightMaps t ! nat i)[k := v]"
    using i ll by (simp add: mip_level_def t')
qed

lemma mip_visited_range:
  assumes ok: "buffers_ok E d t" and r: "rect_ok d rect" and i: "0 \<le> i" "i < numHeightMipMaps E - 1"
    and v: "mip_visited rect i x y"
  shows "0 \<le> x" "x + 1 < drop_bit (nat i) (mapx d)" "even x"
        "0 \<le> y" "y + 1 < drop_bit (nat i) (mapy d)" "even y"
proof -
  have i': "i < numHeightMipMaps E" using i by simp
  have p: "0 < mapx d" "0 < mapy d" using ok by (simp_all add: buffers_ok_def)
  note dv = dvd_level[OF ok i(1) i']
  have ex: "x2 rect div 2 ^ nat i \<le> mapx d div 2 ^ nat i - 1"
  proof -
    have "x2 rect div 2 ^ nat i \<le> (mapx d - 1) div 2 ^ nat i"
      using r by (intro zdiv_mono1) (simp_all add: rect_ok_def mapxm1_def)
    then show ?thesis using shr_m1[OF dv(1) p(1)] by simp
  qed
  have ey: "z2 rect div 2 ^ nat i \<le> mapy d div 2 ^ nat i - 1"
  proof -
    have "z2 rect div 2 ^ nat i \<le> (mapy d - 1) div 2 ^ nat i"
      using r by (intro zdiv_mono1) (simp_all add: rect_ok_def mapym1_def)
    then show ?thesis using shr_m1[OF dv(2) p(2)] by simp
  qed
  have sx: "0 \<le> x1 rect div 2 ^ nat i div 2" and sy: "0 \<le> z1 rect div 2 ^ nat i div 2"
    using r by (simp_all add: rect_ok_def pos_imp_zdiv_nonneg_iff)
  from v[unfolded mip_visited_def Let_def and_not_one drop_bit_eq_div]
  have a: "2 * (z1 rect div 2 ^ nat i div 2) \<le> y" "y < z2 rect div 2 ^ nat i"
      "2 dvd (y - 2 * (z1 rect div 2 ^ nat i div 2))"
      "2 * (x1 rect div 2 ^ nat i div 2) \<le> x" "x < x2 rect div 2 ^ nat i"
      "2 dvd (x - 2 * (x1 rect div 2 ^ nat i div 2))"
    by blast+
  show "0 \<le> x" using a(4) sx by linarith
  show "0 \<le> y" using a(1) sy by linarith
  show "x + 1 < drop_bit (nat i) (mapx d)" using a(5) ex by (simp add: drop_bit_eq_div)
  show "y + 1 < drop_bit (nat i) (mapy d)" using a(2) ey by (simp add: drop_bit_eq_div)
  show "even x" using a(6) by simp
  show "even y" using a(3) by simp
qed

lemma mip_idx_neq:
  assumes "0 \<le> a" "a < W" "0 \<le> a'" "a' < W" "0 \<le> b" "0 \<le> b'" "a' \<noteq> a \<or> b' \<noteq> b"
  shows "nat (a' + b' * W) \<noteq> nat (a + b * (W::int))"
proof
  assume "nat (a' + b' * W) = nat (a + b * W)"
  moreover have "0 \<le> a' + b' * W" "0 \<le> a + b * W" using assms by simp_all
  ultimately have "b' * W + a' = b * W + a" by linarith
  from idx_inj[OF assms(3,4,1,2) this] assms(7) show False by simp
qed

lemma UpdateMipHeightmaps_level_post:
  assumes ok: "buffers_ok E d t" and r: "rect_ok d rect" and i: "0 \<le> i" "i < numHeightMipMaps E - 1"
  shows "\<exists>t'. UpdateMipHeightmaps_level E d rect i t = Some t' \<and> buffers_ok E d t'
      \<and> (\<exists>m. t' = t\<lparr>mipCenterHeightMaps := m\<rparr>)
      \<and> (\<forall>j. 0 \<le> j \<and> j \<le> i \<longrightarrow> mip_level t' j = mip_level t j)
      \<and> (\<forall>x y. mip_visited rect i x y \<longrightarrow> mip_avg_ok E d t' i (x div 2) (y div 2))"
proof -
  let ?W = "drop_bit (nat i) (mapx d)" and ?H = "drop_bit (nat i) (mapy d)"
  let ?W2 = "drop_bit (nat (i + 1)) (mapx d)" and ?H2 = "drop_bit (nat (i + 1)) (mapy d)"
  let ?Inv = "\<lambda>u. buffers_ok E d u \<and> (\<exists>m. u = t\<lparr>mipCenterHeightMaps := m\<rparr>)
      \<and> (\<forall>j. 0 \<le> j \<and> j \<le> i \<longrightarrow> mip_level u j = mip_level t j)"
  let ?P = "\<lambda>x y u. mip_avg_ok E d u i (x div 2) (y div 2)"
  let ?sx = "(drop_bit (nat i) (x1 rect)) AND (NOT 1)" and ?ex = "drop_bit (nat i) (x2 rect)"
  let ?sy = "(drop_bit (nat i) (z1 rect)) AND (NOT 1)" and ?ey = "drop_bit (nat i) (z2 rect)"
  have i': "0 \<le> i + 1" "i + 1 < numHeightMipMaps E" using i by simp_all
  have S: "nat (i + 1) = Suc (nat i)" using i by simp
  have W: "?W = 2 * ?W2" and H: "?H = 2 * ?H2"
    using dvd_level[OF ok i'] half_level[of "nat i"] by (simp_all add: S drop_bit_eq_div)
  have vis: "mip_visited rect i x y"
    if "?sy \<le> y" "y < ?ey" "2 dvd (y - ?sy)" "?sx \<le> x" "x < ?ex" "2 dvd (x - ?sx)" for x y
    using that unfolding mip_visited_def Let_def by blast
  have step: "\<exists>u'. UpdateMipHeightmaps_body E i ?W y x u = Some u' \<and> ?Inv u' \<and> ?P x y u'
       \<and> (\<forall>x' y'. mip_visited rect i x' y' \<and> (x' \<noteq> x \<or> y' \<noteq> y) \<and> ?P x' y' u \<longrightarrow> ?P x' y' u')"
    if v: "mip_visited rect i x y" and u: "?Inv u" for x y u
  proof -
    from u have oku: "buffers_ok E d u" by blast
    note b = mip_visited_range[OF oku r i v]
    let ?k = "nat (x div 2 + (y div 2) * ?W2)"
    let ?V = "(mip_cell d u i x y + mip_cell d u i x (y + 1)
               + mip_cell d u i (x + 1) y + mip_cell d u i (x + 1) (y + 1)) * lit_0_25 E"
    define u' where "u' = u\<lparr>mipCenterHeightMaps := (mipCenterHeightMaps u)
        [nat i := (mipCenterHeightMaps u ! nat i)[?k := ?V]]\<rparr>"
    have body: "UpdateMipHeightmaps_body E i ?W y x u = Some u'"
      unfolding u'_def by (rule mip_body[OF oku i b])
    note w = mip_write_props[OF oku i u'_def]
    have same: "mip_cell d u' i a c = mip_cell d u i a c" for a c
      using w(2)[of i] i by (simp add: mip_cell_def)
    have xh: "0 \<le> x div 2" "x div 2 < ?W2" "2 * (x div 2) = x" using b W by auto
    have yh: "0 \<le> y div 2" "y div 2 < ?H2" "2 * (y div 2) = y" using b H by auto
    have len: "int (length (mipCenterHeightMaps u ! nat i)) = ?W2 * ?H2"
      using oku i by (auto simp: buffers_ok_def dest!: spec[of _ "i + 1"])
    have "0 \<le> x div 2 + (y div 2) * ?W2" "x div 2 + (y div 2) * ?W2 < ?W2 * ?H2"
      using idx_bounds[OF xh(1,2) yh(1,2)] by (simp_all add: add.commute)
    then have kb: "?k < length (mipCenterHeightMaps u ! nat i)"
      using len by linarith
    have Pn: "?P x y u'"
      unfolding mip_avg_ok_def same xh(3) yh(3) using kb by (simp add: mip_cell_def w(3))
    have In: "?Inv u'"
    proof -
      from u obtain m where "u = t\<lparr>mipCenterHeightMaps := m\<rparr>" by blast
      then have "\<exists>m'. u' = t\<lparr>mipCenterHeightMaps := m'\<rparr>" unfolding u'_def by auto
      moreover have "mip_level u' j = mip_level t j" if "0 \<le> j" "j \<le> i" for j
        using w(2)[of j] u that by simp
      ultimately show ?thesis using w(1) by blast
    qed
    have pres: "?P x' y' u'" if v': "mip_visited rect i x' y'" and ne: "x' \<noteq> x \<or> y' \<noteq> y" and P': "?P x' y' u" for x' y'
    proof -
      note b' = mip_visited_range[OF oku r i v']
      have xh': "0 \<le> x' div 2" "x' div 2 < ?W2" using b' W by auto
      have yh': "0 \<le> y' div 2" using b' by auto
      have "x' div 2 \<noteq> x div 2 \<or> y' div 2 \<noteq> y div 2"
        using ne b(3,6) b'(3,6) by (auto elim!: evenE)
      then have "nat (x' div 2 + (y' div 2) * ?W2) \<noteq> ?k"
        by (intro mip_idx_neq xh xh' yh yh')
      then have "mip_cell d u' (i + 1) (x' div 2) (y' div 2) = mip_cell d u (i + 1) (x' div 2) (y' div 2)"
        using i by (simp add: mip_cell_def w(3)) (simp add: mip_level_def)
      then show ?thesis using P' unfolding mip_avg_ok_def same by simp
    qed
    show ?thesis using body In Pn pres by blast
  qed
  have "\<exists>s'. for_step 2 ?sy ?ey (\<lambda>y. for_step 2 ?sx ?ex (\<lambda>x. UpdateMipHeightmaps_body E i ?W y x)) t = Some s' \<and> ?Inv s' \<and>
     (\<forall>x y. ?sy \<le> y \<and> y < ?ey \<and> 2 dvd (y - ?sy) \<and> ?sx \<le> x \<and> x < ?ex \<and> 2 dvd (x - ?sx) \<longrightarrow> ?P x y s')"
  proof (rule for_rect_rule[where Inv = ?Inv and P = ?P], goal_cases)
    case 3
    show ?case using ok by (auto intro: exI[of _ "mipCenterHeightMaps t"])
  next
    case (4 x y u)
    from step[OF vis[OF 4(1-6)] 4(7)] show ?case by blast
  next
    case (5 x y x' y' u u')
    from step[OF vis[OF 5(1-6)] 5(14)] 5(16) vis[OF 5(7-12)] 5(13,15) show ?case by auto
  qed simp_all
  then show ?thesis unfolding UpdateMipHeightmaps_level_def Let_def mip_visited_def by auto
qed

lemma mip_avg_ok_cong:
  "mip_level t' i = mip_level t i \<Longrightarrow> mip_level t' (i + 1) = mip_level t (i + 1)
     \<Longrightarrow> mip_avg_ok E d t' i cx cy = mip_avg_ok E d t i cx cy"
  by (simp add: mip_avg_ok_def mip_cell_def)

lemma for_loop_id:
  assumes "\<And>j. i \<le> j \<Longrightarrow> j < n \<Longrightarrow> body j s = Some s"
  shows "for_step 1 i n body s = Some s"
proof -
  have "\<exists>s'. for_step 1 i n body s = Some s' \<and> s' = s"
    by (rule for_loop_rule[where I = "\<lambda>j t. t = s"]) (use assms in auto)
  then show ?thesis by simp
qed

lemma UpdateMipHeightmaps_post:
  assumes ok: "buffers_ok E d s" and r: "rect_ok d rect"
  shows "\<exists>s'. UpdateMipHeightmaps E d rect ini s = Some s' \<and> buffers_ok E d s'
      \<and> (\<exists>m. s' = s\<lparr>mipCenterHeightMaps := m\<rparr>)
      \<and> (\<forall>i x y. 0 \<le> i \<and> i < numHeightMipMaps E - 1 \<and> mip_visited rect i x y
            \<longrightarrow> mip_avg_ok E d s' i (x div 2) (y div 2))"
proof -
  let ?Inv = "\<lambda>u. buffers_ok E d u \<and> (\<exists>m. u = s\<lparr>mipCenterHeightMaps := m\<rparr>)"
  let ?P = "\<lambda>i u. \<forall>x y. mip_visited rect i x y \<longrightarrow> mip_avg_ok E d u i (x div 2) (y div 2)"
  have "\<exists>s'. for_step 1 0 (numHeightMipMaps E - 1) (UpdateMipHeightmaps_level E d rect) s = Some s' \<and> ?Inv s'
     \<and> (\<forall>i. 0 \<le> i \<and> i < numHeightMipMaps E - 1 \<and> 1 dvd (i - 0) \<longrightarrow> ?P i s')"
  proof (rule for_step_all[where Inv = ?Inv and P = ?P], goal_cases)
    case 2
    show ?case using ok by (auto intro: exI[of _ "mipCenterHeightMaps s"])
  next
    case (3 j t)
    then have okt: "buffers_ok E d t" and m: "\<exists>m. t = s\<lparr>mipCenterHeightMaps := m\<rparr>" by blast+
    from UpdateMipHeightmaps_level_post[OF okt r 3(1,2), of ] obtain t' where
      t': "UpdateMipHeightmaps_level E d rect j t = Some t'" "buffers_ok E d t'"
        "\<exists>m. t' = t\<lparr>mipCenterHeightMaps := m\<rparr>" "?P j t'" by blast
    from m t'(3) have "\<exists>m. t' = s\<lparr>mipCenterHeightMaps := m\<rparr>" by auto
    then show ?case using t' by blast
  next
    case (4 j i t t')
    then have okt: "buffers_ok E d t" by blast
    from UpdateMipHeightmaps_level_post[OF okt r, of j] 4(1,2,3,8)
    have same: "\<forall>k. 0 \<le> k \<and> k \<le> j \<longrightarrow> mip_level t' k = mip_level t k" by auto
    have "mip_level t' i = mip_level t i" "mip_level t' (i + 1) = mip_level t (i + 1)"
      using same 4(1,2) by auto
    from mip_avg_ok_cong[OF this] 4(7) show ?case by simp
  qed simp
  then show ?thesis unfolding UpdateMipHeightmaps_def by auto
qed

lemma UpdateMipHeightmaps_idem:
  assumes ok: "buffers_ok E d s" and r: "rect_ok d rect"
    and post: "\<forall>i x y. 0 \<le> i \<and> i < numHeightMipMaps E - 1 \<and> mip_visited rect i x y
            \<longrightarrow> mip_avg_ok E d s i (x div 2) (y div 2)"
  shows "UpdateMipHeightmaps E d rect ini s = Some s"
  unfolding UpdateMipHeightmaps_def
proof (rule for_loop_id)
  fix i assume i: "0 \<le> i" "i < numHeightMipMaps E - 1"
  let ?W2 = "drop_bit (nat (i + 1)) (mapx d)"
  show "UpdateMipHeightmaps_level E d rect i s = Some s"
    unfolding UpdateMipHeightmaps_level_def Let_def
  proof (rule for_rect_id, goal_cases)
    case (3 x y)
    then have v: "mip_visited rect i x y" unfolding mip_visited_def Let_def by blast
    note b = mip_visited_range[OF ok r i v]
    have "mip_avg_ok E d s i (x div 2) (y div 2)" using post i v by blast
    moreover have "2 * (x div 2) = x" "2 * (y div 2) = y" using b by auto
    ultimately have "mip_cell d s (i + 1) (x div 2) (y div 2) =
       (mip_cell d s i x y + mip_cell d s i x (y + 1)
               + mip_cell d s i (x + 1) y + mip_cell d s i (x + 1) (y + 1)) * lit_0_25 E"
      by (simp add: mip_avg_ok_def)
    moreover have "mip_cell d s (i + 1) (x div 2) (y div 2)
        = (mipCenterHeightMaps s ! nat i) ! nat (x div 2 + (y div 2) * ?W2)"
      using i by (simp add: mip_cell_def mip_level_def)
    ultimately have "(mipCenterHeightMaps s ! nat i)[nat (x div 2 + (y div 2) * ?W2) :=
        (mip_cell d s i x y + mip_cell d s i x (y + 1)
               + mip_cell d s i (x + 1) y + mip_cell d s i (x + 1) (y + 1)) * lit_0_25 E]
        = mipCenterHeightMaps s ! nat i"
      by (metis list_update_id)
    then show ?case using mip_body[OF ok i b] by simp
  qed simp_all
qed

section \<open>Face normals\<close>

lemma face_idx:
  assumes "0 \<le> x" "x < mapx d" "0 \<le> y" "y < mapy d"
  shows "0 \<le> (y * mapx d + x) * 2" "(y * mapx d + x) * 2 + 1 < mapx d * mapy d * 2"
  using center_idx[OF assms] by auto

lemma face_body:
  assumes ok: "buffers_ok E d t" and x: "0 \<le> x" "x < mapx d" and y: "0 \<le> y" "y < mapy d"
  shows "UpdateFaceNormals_body E d ini y x t = Some (face_write E d ini x y t)"
proof -
  let ?k = "y * mapx d + x"
  let ?h = "heightMapSynced t"
  have L: "int (length ?h) = mapxp1 d * mapyp1 d"
    "int (length (faceNormalsSynced t)) = mapx d * mapy d * 2"
    "int (length (faceNormalsUnsynced t)) = mapx d * mapy d * 2"
    "int (length (centerNormalsSynced t)) = mapx d * mapy d"
    "int (length (centerNormalsUnsynced t)) = mapx d * mapy d"
    "int (length (centerNormals2D t)) = mapx d * mapy d"
    using ok by (simp_all add: buffers_ok_def)
  have r: "rd ?h (y * mapxp1 d + x) = Some (corner d ?h x y)"
    "rd ?h (y * mapxp1 d + x + 1) = Some (corner d ?h (x + 1) y)"
    "rd ?h ((y + 1) * mapxp1 d + x) = Some (corner d ?h x (y + 1))"
    "rd ?h ((y + 1) * mapxp1 d + x + 1) = Some (corner d ?h (x + 1) (y + 1))"
    using x y by (auto intro!: rd_corner[OF L(1)])
  note k = center_idx[OF x y] face_idx[OF x y]
  have kk: "nat (?k * 2) < length (faceNormalsSynced t)" "nat (?k * 2 + 1) < length (faceNormalsSynced t)"
    "nat (?k * 2) < length (faceNormalsUnsynced t)" "nat (?k * 2 + 1) < length (faceNormalsUnsynced t)"
    "nat ?k < length (centerNormalsSynced t)" "nat ?k < length (centerNormalsUnsynced t)"
    "nat ?k < length (centerNormals2D t)" "nat (?k * 2) \<noteq> nat (?k * 2 + 1)"
    "0 \<le> ?k * 2" "0 \<le> ?k * 2 + 1" "0 \<le> ?k"
    using k L by linarith+
  have ki: "?k * 2 < int (length (faceNormalsSynced t))" "?k * 2 + 1 < int (length (faceNormalsSynced t))"
    "?k * 2 < int (length (faceNormalsUnsynced t))" "?k * 2 + 1 < int (length (faceNormalsUnsynced t))"
    "?k < int (length (centerNormalsSynced t))" "?k < int (length (centerNormalsUnsynced t))"
    "?k < int (length (centerNormals2D t))"
    using k L by linarith+
  show ?thesis
    unfolding UpdateFaceNormals_body_def face_write_def Let_def r fnTL_value_def fnBR_value_def
    using kk ki by (simp add: rd_def wr_def)
qed

lemma face_write_frame:
  "\<exists>f fu cn cu c2. face_write E d ini x y t =
      t\<lparr>faceNormalsSynced := f, faceNormalsUnsynced := fu, centerNormalsSynced := cn,
        centerNormalsUnsynced := cu, centerNormals2D := c2\<rparr>"
proof -
  let ?k = "y * mapx d + x"
  let ?tl = "fnTL_value E d (heightMapSynced t) x y" and ?br = "fnBR_value E d (heightMapSynced t) x y"
  show ?thesis
  proof (cases "USE_UNSYNCED_HEIGHTMAP E \<and> ini")
    case True
    have "face_write E d ini x y t =
      t\<lparr>faceNormalsSynced := (faceNormalsSynced t)[nat (?k * 2) := ?tl, nat (?k * 2 + 1) := ?br],
        faceNormalsUnsynced := (faceNormalsUnsynced t)[nat (?k * 2) := ?tl, nat (?k * 2 + 1) := ?br],
        centerNormalsSynced := (centerNormalsSynced t)[nat ?k := Normalize E (float3_add ?tl ?br)],
        centerNormalsUnsynced := (centerNormalsUnsynced t)[nat ?k := Normalize E (float3_add ?tl ?br)],
        centerNormals2D := (centerNormals2D t)[nat ?k := Normalize2D E (float3_add ?tl ?br)]\<rparr>"
      unfolding face_write_def Let_def by (simp add: True)
    then show ?thesis by blast
  next
    case False
    have "face_write E d ini x y t =
      t\<lparr>faceNormalsSynced := (faceNormalsSynced t)[nat (?k * 2) := ?tl, nat (?k * 2 + 1) := ?br],
        faceNormalsUnsynced := faceNormalsUnsynced t,
        centerNormalsSynced := (centerNormalsSynced t)[nat ?k := Normalize E (float3_add ?tl ?br)],
        centerNormalsUnsynced := centerNormalsUnsynced t,
        centerNormals2D := (centerNormals2D t)[nat ?k := Normalize2D E (float3_add ?tl ?br)]\<rparr>"
      unfolding face_write_def Let_def by (simp add: False)
    then show ?thesis by blast
  qed
qed

lemma face_write_props:
  assumes ok: "buffers_ok E d t" and x: "0 \<le> x" "x < mapx d" and y: "0 \<le> y" "y < mapy d"
  shows "buffers_ok E d (face_write E d ini x y t)"
    and "heightMapSynced (face_write E d ini x y t) = heightMapSynced t"
    and "normals_ok E d ini (face_write E d ini x y t) x y"
    and "\<And>x' y'. \<lbrakk>0 \<le> x'; x' < mapx d; 0 \<le> y'; y' < mapy d; x' \<noteq> x \<or> y' \<noteq> y;
            normals_ok E d ini t x' y'\<rbrakk> \<Longrightarrow> normals_ok E d ini (face_write E d ini x y t) x' y'"
proof -
  let ?k = "y * mapx d + x"
  let ?u = "face_write E d ini x y t"
  have L: "int (length (faceNormalsSynced t)) = mapx d * mapy d * 2"
    "int (length (faceNormalsUnsynced t)) = mapx d * mapy d * 2"
    "int (length (centerNormalsSynced t)) = mapx d * mapy d"
    "int (length (centerNormalsUnsynced t)) = mapx d * mapy d"
    "int (length (centerNormals2D t)) = mapx d * mapy d"
    using ok by (simp_all add: buffers_ok_def)
  note k = center_idx[OF x y] face_idx[OF x y]
  have kk: "nat (?k * 2) < length (faceNormalsSynced t)" "nat (?k * 2 + 1) < length (faceNormalsSynced t)"
    "nat (?k * 2) < length (faceNormalsUnsynced t)" "nat (?k * 2 + 1) < length (faceNormalsUnsynced t)"
    "nat ?k < length (centerNormalsSynced t)" "nat ?k < length (centerNormalsUnsynced t)"
    "nat ?k < length (centerNormals2D t)" "nat (?k * 2) \<noteq> nat (?k * 2 + 1)"
    using k L by linarith+
  show "buffers_ok E d ?u"
    using ok unfolding buffers_ok_def face_write_def Let_def by simp
  show h: "heightMapSynced ?u = heightMapSynced t"
    unfolding face_write_def Let_def by simp
  show "normals_ok E d ini ?u x y"
    unfolding normals_ok_def h unfolding face_write_def Let_def using kk by simp
  show "normals_ok E d ini ?u x' y'"
    if x': "0 \<le> x'" "x' < mapx d" and y': "0 \<le> y'" "y' < mapy d" and ne: "x' \<noteq> x \<or> y' \<noteq> y"
      and P: "normals_ok E d ini t x' y'" for x' y'
  proof -
    let ?k' = "y' * mapx d + x'"
    have "nat ?k' \<noteq> nat ?k" using center_idx_inj[of x d x' y y'] x x' y y' ne by blast
    moreover have "0 \<le> ?k'" "0 \<le> ?k" using center_idx[OF x' y'] k by simp_all
    ultimately have kne: "?k' \<noteq> ?k" and k0: "0 \<le> ?k'" "0 \<le> ?k" by auto
    have n: "nat (?k' * 2) \<noteq> nat (?k * 2)" "nat (?k' * 2) \<noteq> nat (?k * 2 + 1)"
      "nat (?k' * 2 + 1) \<noteq> nat (?k * 2)" "nat (?k' * 2 + 1) \<noteq> nat (?k * 2 + 1)" "nat ?k' \<noteq> nat ?k"
      using kne k0 by (simp_all add: eq_nat_nat_iff)
    show ?thesis
      using P unfolding normals_ok_def h unfolding face_write_def Let_def using n
      by (cases "USE_UNSYNCED_HEIGHTMAP E"; cases ini; simp)
  qed
qed

lemma face_rect_range:
  assumes "buffers_ok E d s" and "in_rect (face_rect d rect) x y"
  shows "0 \<le> x" "x < mapx d" "0 \<le> y" "y < mapy d"
  using assms by (auto simp: in_rect_def face_rect_def mapxm1_def mapym1_def)

lemma UpdateFaceNormals_post:
  assumes ok: "buffers_ok E d s"
  shows "\<exists>s'. UpdateFaceNormals E d rect ini s = Some s' \<and> buffers_ok E d s'
      \<and> (\<exists>f fu cn cu c2. s' = s\<lparr>faceNormalsSynced := f, faceNormalsUnsynced := fu,
             centerNormalsSynced := cn, centerNormalsUnsynced := cu, centerNormals2D := c2\<rparr>)
      \<and> (\<forall>x y. in_rect (face_rect d rect) x y \<longrightarrow> normals_ok E d ini s' x y)"
proof -
  let ?Inv = "\<lambda>u. buffers_ok E d u \<and> (\<exists>f fu cn cu c2. u = s\<lparr>faceNormalsSynced := f, faceNormalsUnsynced := fu,
             centerNormalsSynced := cn, centerNormalsUnsynced := cu, centerNormals2D := c2\<rparr>)"
  let ?P = "\<lambda>x y u. normals_ok E d ini u x y"
  let ?r = "face_rect d rect"
  have rng: "0 \<le> x \<and> x < mapx d \<and> 0 \<le> y \<and> y < mapy d"
    if "z1 ?r \<le> y" "y < z2 ?r + 1" "x1 ?r \<le> x" "x < x2 ?r + 1" for x y
    using that by (auto simp: face_rect_def mapxm1_def mapym1_def)
  have "\<exists>s'. for_step 1 (z1 ?r) (z2 ?r + 1) (\<lambda>y. for_step 1 (x1 ?r) (x2 ?r + 1) (\<lambda>x. UpdateFaceNormals_body E d ini y x)) s = Some s'
     \<and> ?Inv s' \<and> (\<forall>x y. z1 ?r \<le> y \<and> y < z2 ?r + 1 \<and> 1 dvd (y - z1 ?r) \<and> x1 ?r \<le> x \<and> x < x2 ?r + 1 \<and> 1 dvd (x - x1 ?r) \<longrightarrow> ?P x y s')"
  proof (rule for_rect_rule[where Inv = ?Inv and P = ?P], goal_cases)
    case 3
    have "s = s\<lparr>faceNormalsSynced := faceNormalsSynced s, faceNormalsUnsynced := faceNormalsUnsynced s,
             centerNormalsSynced := centerNormalsSynced s, centerNormalsUnsynced := centerNormalsUnsynced s,
             centerNormals2D := centerNormals2D s\<rparr>" by simp
    then show ?case using ok by blast
  next
    case (4 x y u)
    then have oku: "buffers_ok E d u" by blast
    note b = rng[OF 4(1,2,4,5)]
    from b have bx: "0 \<le> x" "x < mapx d" and bz: "0 \<le> y" "y < mapy d" by auto
    from 4(7) obtain f fu cn cu c2 where u: "u = s\<lparr>faceNormalsSynced := f, faceNormalsUnsynced := fu,
             centerNormalsSynced := cn, centerNormalsUnsynced := cu, centerNormals2D := c2\<rparr>" by blast
    from face_write_frame[of E d ini x y u] obtain f' fu' cn' cu' c2' where
      "face_write E d ini x y u = u\<lparr>faceNormalsSynced := f', faceNormalsUnsynced := fu',
             centerNormalsSynced := cn', centerNormalsUnsynced := cu', centerNormals2D := c2'\<rparr>" by blast
    then have "face_write E d ini x y u = s\<lparr>faceNormalsSynced := f', faceNormalsUnsynced := fu',
             centerNormalsSynced := cn', centerNormalsUnsynced := cu', centerNormals2D := c2'\<rparr>"
      by (simp add: u)
    then show ?case
      using face_body[OF oku bx bz, of ini] face_write_props(1,3)[OF oku bx bz, of ini] by blast
  next
    case (5 x y x' y' u u')
    then have oku: "buffers_ok E d u" by blast
    from rng[OF 5(1,2,4,5)] have bx: "0 \<le> x" "x < mapx d" and bz: "0 \<le> y" "y < mapy d" by auto
    from rng[OF 5(7,8,10,11)] have bx': "0 \<le> x'" "x' < mapx d" and bz': "0 \<le> y'" "y' < mapy d" by auto
    have "u' = face_write E d ini x y u" using 5(16) face_body[OF oku bx bz, of ini] by simp
    then show ?case using face_write_props(4)[OF oku bx bz bx' bz' 5(13,15)] by simp
  qed simp_all
  then show ?thesis
    unfolding UpdateFaceNormals_def Let_def in_rect_def
    by (simp add: face_rect_def zless_add1_eq) blast
qed

lemma UpdateFaceNormals_idem:
  assumes ok: "buffers_ok E d s"
    and post: "\<forall>x y. in_rect (face_rect d rect) x y \<longrightarrow> normals_ok E d ini s x y"
  shows "UpdateFaceNormals E d rect ini s = Some s"
proof -
  let ?r = "face_rect d rect"
  have "for_step 1 (z1 ?r) (z2 ?r + 1) (\<lambda>y. for_step 1 (x1 ?r) (x2 ?r + 1) (\<lambda>x. UpdateFaceNormals_body E d ini y x)) s = Some s"
  proof (rule for_rect_id, goal_cases)
    case (3 x y)
    then have i: "in_rect ?r x y" by (simp add: in_rect_def)
    note b = face_rect_range[OF ok i]
    let ?k = "y * mapx d + x"
    let ?tl = "fnTL_value E d (heightMapSynced s) x y" and ?br = "fnBR_value E d (heightMapSynced s) x y"
    have n: "normals_ok E d ini s x y" using post i by blast
    have e1: "(faceNormalsSynced s)[nat (?k * 2) := ?tl, nat (?k * 2 + 1) := ?br] = faceNormalsSynced s"
      using n unfolding normals_ok_def Let_def by (metis list_update_id)
    have e2: "(centerNormalsSynced s)[nat ?k := Normalize E (float3_add ?tl ?br)] = centerNormalsSynced s"
      using n unfolding normals_ok_def Let_def by (metis list_update_id)
    have e3: "(centerNormals2D s)[nat ?k := Normalize2D E (float3_add ?tl ?br)] = centerNormals2D s"
      using n unfolding normals_ok_def Let_def by (metis list_update_id)
    have e4: "(faceNormalsUnsynced s)[nat (?k * 2) := ?tl, nat (?k * 2 + 1) := ?br] = faceNormalsUnsynced s"
      and e5: "(centerNormalsUnsynced s)[nat ?k := Normalize E (float3_add ?tl ?br)] = centerNormalsUnsynced s"
      if "USE_UNSYNCED_HEIGHTMAP E \<and> ini"
      using n that unfolding normals_ok_def Let_def by (metis list_update_id)+
    have "face_write E d ini x y s = s"
      unfolding face_write_def Let_def e1 e2 e3 using e4 e5 by simp
    then show ?case using face_body[OF ok b, of ini] by simp
  qed simp_all
  then show ?thesis unfolding UpdateFaceNormals_def Let_def by (simp add: face_rect_def)
qed

section \<open>The slope map\<close>

lemma slope_rect_range:
  assumes "in_rect (slope_rect d rect) x y"
  shows "0 \<le> x" "x < hmapx d" "0 \<le> y" "y < hmapy d"
  using assms by (auto simp: in_rect_def slope_rect_def)

lemma slope_body:
  assumes ok: "buffers_ok E d t" and x: "0 \<le> x" "x < hmapx d" and y: "0 \<le> y" "y < hmapy d"
  shows "UpdateSlopemap_body E d y x t =
     Some (t\<lparr>slopeMap := (slopeMap t)[nat (y * hmapx d + x) := slope_value E d (faceNormalsSynced t) x y]\<rparr>)"
proof -
  let ?f = "faceNormalsSynced t"
  have L: "int (length ?f) = mapx d * mapy d * 2" "int (length (slopeMap t)) = hmapx d * hmapy d"
    using ok by (simp_all add: buffers_ok_def)
  have X: "0 \<le> x * 2" "x * 2 + 1 < mapx d" and Y: "0 \<le> y * 2" "y * 2 + 1 < mapy d"
    using x y by (simp_all add: hmapx_def hmapy_def drop_bit_eq_div)
  have rdf: "rd ?f i = Some (?f ! nat i)"
    if "0 \<le> X" "X < mapx d" "0 \<le> Y" "Y < mapy d" "i = (Y * mapx d + X) * 2 \<or> i = (Y * mapx d + X) * 2 + 1" for i X Y
    using face_idx[OF that(1-4)] that(5) L(1) by (auto simp: rd_def)
  have r: "rd ?f (((y * 2) * mapx d + x * 2) * 2) = Some (?f ! nat (((y * 2) * mapx d + x * 2) * 2))"
    "rd ?f (((y * 2) * mapx d + x * 2) * 2 + 1) = Some (?f ! nat (((y * 2) * mapx d + x * 2) * 2 + 1))"
    "rd ?f (((y * 2) * mapx d + x * 2 + 1) * 2) = Some (?f ! nat (((y * 2) * mapx d + x * 2 + 1) * 2))"
    "rd ?f (((y * 2) * mapx d + x * 2 + 1) * 2 + 1) = Some (?f ! nat (((y * 2) * mapx d + x * 2 + 1) * 2 + 1))"
    "rd ?f (((y * 2 + 1) * mapx d + x * 2) * 2) = Some (?f ! nat (((y * 2 + 1) * mapx d + x * 2) * 2))"
    "rd ?f (((y * 2 + 1) * mapx d + x * 2) * 2 + 1) = Some (?f ! nat (((y * 2 + 1) * mapx d + x * 2) * 2 + 1))"
    "rd ?f (((y * 2 + 1) * mapx d + x * 2 + 1) * 2) = Some (?f ! nat (((y * 2 + 1) * mapx d + x * 2 + 1) * 2))"
    "rd ?f (((y * 2 + 1) * mapx d + x * 2 + 1) * 2 + 1) = Some (?f ! nat (((y * 2 + 1) * mapx d + x * 2 + 1) * 2 + 1))"
    subgoal by (rule rdf[of "x * 2" "y * 2"]) (use X Y in auto)
    subgoal by (rule rdf[of "x * 2" "y * 2"]) (use X Y in auto)
    subgoal by (rule rdf[of "x * 2 + 1" "y * 2"]) (use X Y in \<open>auto simp: algebra_simps\<close>)
    subgoal by (rule rdf[of "x * 2 + 1" "y * 2"]) (use X Y in \<open>auto simp: algebra_simps\<close>)
    subgoal by (rule rdf[of "x * 2" "y * 2 + 1"]) (use X Y in auto)
    subgoal by (rule rdf[of "x * 2" "y * 2 + 1"]) (use X Y in auto)
    subgoal by (rule rdf[of "x * 2 + 1" "y * 2 + 1"]) (use X Y in \<open>auto simp: algebra_simps\<close>)
    subgoal by (rule rdf[of "x * 2 + 1" "y * 2 + 1"]) (use X Y in \<open>auto simp: algebra_simps\<close>)
    done
  have w: "wr (slopeMap t) (y * hmapx d + x) v = Some ((slopeMap t)[nat (y * hmapx d + x) := v])" for v
    using idx_bounds[OF x y] L(2) by (intro wr_Some) simp_all
  show ?thesis
    unfolding UpdateSlopemap_body_def slope_value_def Let_def r w by simp
qed

lemma UpdateSlopemap_post:
  assumes ok: "buffers_ok E d s"
  shows "\<exists>s'. UpdateSlopemap E d rect ini s = Some s' \<and> buffers_ok E d s'
      \<and> (\<exists>sm. s' = s\<lparr>slopeMap := sm\<rparr>)
      \<and> (\<forall>x y. in_rect (slope_rect d rect) x y \<longrightarrow>
            slopeMap s' ! nat (y * hmapx d + x) = slope_value E d (faceNormalsSynced s) x y)"
proof -
  let ?Inv = "\<lambda>u. buffers_ok E d u \<and> (\<exists>sm. u = s\<lparr>slopeMap := sm\<rparr>)"
  let ?P = "\<lambda>x y u. slopeMap u ! nat (y * hmapx d + x) = slope_value E d (faceNormalsSynced s) x y"
  let ?r = "slope_rect d rect"
  have rng: "0 \<le> x \<and> x < hmapx d \<and> 0 \<le> y \<and> y < hmapy d"
    if "z1 ?r \<le> y" "y < z2 ?r + 1" "x1 ?r \<le> x" "x < x2 ?r + 1" for x y
    using that by (auto simp: slope_rect_def)
  have step: "UpdateSlopemap_body E d y x u =
       Some (u\<lparr>slopeMap := (slopeMap u)[nat (y * hmapx d + x) := slope_value E d (faceNormalsSynced s) x y]\<rparr>)
       \<and> nat (y * hmapx d + x) < length (slopeMap u)"
    if "?Inv u" "0 \<le> x \<and> x < hmapx d \<and> 0 \<le> y \<and> y < hmapy d" for u x y
  proof -
    from that(1) obtain sm where u: "u = s\<lparr>slopeMap := sm\<rparr>" and oku: "buffers_ok E d u" by blast
    have "int (length (slopeMap u)) = hmapx d * hmapy d" using oku by (simp add: buffers_ok_def)
    then have "nat (y * hmapx d + x) < length (slopeMap u)"
      using idx_bounds[of x "hmapx d" y "hmapy d"] that(2) by linarith
    moreover have "faceNormalsSynced u = faceNormalsSynced s" by (simp add: u)
    ultimately show ?thesis using slope_body[OF oku, of x y] that(2) by simp
  qed
  have "\<exists>s'. for_step 1 (z1 ?r) (z2 ?r + 1) (\<lambda>y. for_step 1 (x1 ?r) (x2 ?r + 1) (\<lambda>x. UpdateSlopemap_body E d y x)) s = Some s'
     \<and> ?Inv s' \<and> (\<forall>x y. z1 ?r \<le> y \<and> y < z2 ?r + 1 \<and> 1 dvd (y - z1 ?r) \<and> x1 ?r \<le> x \<and> x < x2 ?r + 1 \<and> 1 dvd (x - x1 ?r) \<longrightarrow> ?P x y s')"
  proof (rule for_rect_rule[where Inv = ?Inv and P = ?P], goal_cases)
    case 3
    show ?case using ok by (auto intro: exI[of _ "slopeMap s"])
  next
    case (4 x y u)
    note st = step[OF 4(7) rng[OF 4(1,2,4,5)]]
    from 4(7) obtain sm where u: "u = s\<lparr>slopeMap := sm\<rparr>" and oku: "buffers_ok E d u" by blast
    have "buffers_ok E d (u\<lparr>slopeMap := (slopeMap u)[nat (y * hmapx d + x) := slope_value E d (faceNormalsSynced s) x y]\<rparr>)"
      using oku by (simp add: buffers_ok_def)
    moreover have "\<exists>sm'. u\<lparr>slopeMap := (slopeMap u)[nat (y * hmapx d + x) := slope_value E d (faceNormalsSynced s) x y]\<rparr> = s\<lparr>slopeMap := sm'\<rparr>"
      by (auto simp: u)
    ultimately show ?case using st by simp
  next
    case (5 x y x' y' u u')
    note b = rng[OF 5(1,2,4,5)] and b' = rng[OF 5(7,8,10,11)]
    note st = step[OF 5(14) b]
    have "nat (y' * hmapx d + x') \<noteq> nat (y * hmapx d + x)"
      using mip_idx_neq[of x "hmapx d" x' y y'] b b' 5(13) by (simp add: add.commute)
    then show ?case using st 5(15,16) by auto
  qed simp_all
  then show ?thesis
    unfolding UpdateSlopemap_def Let_def in_rect_def
    by (simp add: slope_rect_def zless_add1_eq) blast
qed

lemma UpdateSlopemap_idem:
  assumes ok: "buffers_ok E d s"
    and post: "\<forall>x y. in_rect (slope_rect d rect) x y \<longrightarrow>
            slopeMap s ! nat (y * hmapx d + x) = slope_value E d (faceNormalsSynced s) x y"
  shows "UpdateSlopemap E d rect ini s = Some s"
proof -
  let ?r = "slope_rect d rect"
  have "for_step 1 (z1 ?r) (z2 ?r + 1) (\<lambda>y. for_step 1 (x1 ?r) (x2 ?r + 1) (\<lambda>x. UpdateSlopemap_body E d y x)) s = Some s"
  proof (rule for_rect_id, goal_cases)
    case (3 x y)
    then have i: "in_rect ?r x y" by (simp add: in_rect_def)
    note b = slope_rect_range[OF i]
    have "slopeMap s ! nat (y * hmapx d + x) = slope_value E d (faceNormalsSynced s) x y"
      using post i by blast
    from this[symmetric] show ?case using slope_body[OF ok b] by simp
  qed simp_all
  then show ?thesis unfolding UpdateSlopemap_def Let_def by (simp add: slope_rect_def)
qed

section \<open>The pipeline as a whole\<close>

lemma UpdateHeightMapSynced_steps:
  "UpdateHeightMapSynced E d r s = do {
     let initialize = (r = \<lparr>x1 = 0, z1 = 0, x2 = mapx d, z2 = mapy d\<rparr>);
     s \<leftarrow> UpdateCenterHeightmap E d (centerRect d r) initialize s;
     s \<leftarrow> UpdateMipHeightmaps E d (centerRect d r) initialize s;
     s \<leftarrow> UpdateFaceNormals E d (centerRect d r) initialize s;
     s \<leftarrow> UpdateSlopemap E d (centerRect d r) initialize s;
     Some (s\<lparr>unsyncedHeightMapUpdates := unsyncedHeightMapUpdates s @ pushed_rects E d r\<rparr>) }"
  unfolding UpdateHeightMapSynced_def centerRect_def cornerRect_def pushed_rects_def Let_def
  by (simp cong: if_cong)

lemma centerRect_ok: "rect_ok d (centerRect d r)"
  by (simp add: rect_ok_def centerRect_def)

lemma mip_level_frame:
  "centerHeightMap t = centerHeightMap s \<Longrightarrow> mipCenterHeightMaps t = mipCenterHeightMaps s
     \<Longrightarrow> mip_level t i = mip_level s i"
  by (simp add: mip_level_def)

lemma mip_avg_ok_frame:
  "centerHeightMap t = centerHeightMap s \<Longrightarrow> mipCenterHeightMaps t = mipCenterHeightMaps s
     \<Longrightarrow> mip_avg_ok E d t i cx cy = mip_avg_ok E d s i cx cy"
  by (rule mip_avg_ok_cong) (rule mip_level_frame; assumption)+

lemma normals_ok_frame:
  "heightMapSynced t = heightMapSynced s \<Longrightarrow> faceNormalsSynced t = faceNormalsSynced s
   \<Longrightarrow> faceNormalsUnsynced t = faceNormalsUnsynced s \<Longrightarrow> centerNormalsSynced t = centerNormalsSynced s
   \<Longrightarrow> centerNormalsUnsynced t = centerNormalsUnsynced s \<Longrightarrow> centerNormals2D t = centerNormals2D s
   \<Longrightarrow> normals_ok E d ini t x y = normals_ok E d ini s x y"
  by (simp add: normals_ok_def)

lemma buffers_ok_frame:
  "buffers_ok E d s \<Longrightarrow> length c = length (centerHeightMap s) \<Longrightarrow> buffers_ok E d (s\<lparr>centerHeightMap := c\<rparr>)"
  "buffers_ok E d s \<Longrightarrow> buffers_ok E d (s\<lparr>unsyncedHeightMapUpdates := q\<rparr>)"
  by (simp_all add: buffers_ok_def)

lemma pipeline_post:
  assumes ok: "buffers_ok E d s"
  shows "\<exists>s'. UpdateHeightMapSynced E d r s = Some s' \<and> buffers_ok E d s' \<and> derived_ok E d r s'
     \<and> (\<exists>c m f fu cn cu c2 sm. s' = s\<lparr>centerHeightMap := c, mipCenterHeightMaps := m,
           faceNormalsSynced := f, faceNormalsUnsynced := fu, centerNormalsSynced := cn,
           centerNormalsUnsynced := cu, centerNormals2D := c2, slopeMap := sm,
           unsyncedHeightMapUpdates := unsyncedHeightMapUpdates s @ pushed_rects E d r\<rparr>)"
proof -
  let ?ini = "r = \<lparr>x1 = 0, z1 = 0, x2 = mapx d, z2 = mapy d\<rparr>"
  let ?cr = "centerRect d r"
  note rok = centerRect_ok[of d r]
  from UpdateCenterHeightmap_post[OF ok rok, of ?ini] obtain a c where
    a: "UpdateCenterHeightmap E d ?cr ?ini s = Some a" "a = s\<lparr>centerHeightMap := c\<rparr>"
       "length c = length (centerHeightMap s)"
       "\<forall>x y. z1 ?cr \<le> y \<and> y \<le> z2 ?cr \<and> x1 ?cr \<le> x \<and> x \<le> x2 ?cr \<longrightarrow>
            centerHeightMap a ! nat (y * mapx d + x) = center_value E d (heightMapSynced s) x y"
    by blast
  have oka: "buffers_ok E d a" unfolding a(2) by (rule buffers_ok_frame(1)[OF ok a(3)])
  from UpdateMipHeightmaps_post[OF oka rok, of ?ini] obtain b m where
    b: "UpdateMipHeightmaps E d ?cr ?ini a = Some b" "buffers_ok E d b" "b = a\<lparr>mipCenterHeightMaps := m\<rparr>"
       "\<forall>i x y. 0 \<le> i \<and> i < numHeightMipMaps E - 1 \<and> mip_visited ?cr i x y
            \<longrightarrow> mip_avg_ok E d b i (x div 2) (y div 2)"
    by blast
  from UpdateFaceNormals_post[OF b(2), of ?cr ?ini] obtain e f fu cn cu c2 where
    e: "UpdateFaceNormals E d ?cr ?ini b = Some e" "buffers_ok E d e"
       "e = b\<lparr>faceNormalsSynced := f, faceNormalsUnsynced := fu,
             centerNormalsSynced := cn, centerNormalsUnsynced := cu, centerNormals2D := c2\<rparr>"
       "\<forall>x y. in_rect (face_rect d ?cr) x y \<longrightarrow> normals_ok E d ?ini e x y"
    by blast
  from UpdateSlopemap_post[OF e(2), of ?cr ?ini] obtain g sm where
    g: "UpdateSlopemap E d ?cr ?ini e = Some g" "buffers_ok E d g" "g = e\<lparr>slopeMap := sm\<rparr>"
       "\<forall>x y. in_rect (slope_rect d ?cr) x y \<longrightarrow>
            slopeMap g ! nat (y * hmapx d + x) = slope_value E d (faceNormalsSynced e) x y"
    by blast
  define s' where "s' = g\<lparr>unsyncedHeightMapUpdates := unsyncedHeightMapUpdates g @ pushed_rects E d r\<rparr>"
  have run: "UpdateHeightMapSynced E d r s = Some s'"
    unfolding UpdateHeightMapSynced_steps Let_def s'_def by (simp add: a(1) b(1) e(1) g(1))
  have oks: "buffers_ok E d s'" unfolding s'_def by (rule buffers_ok_frame(2)[OF g(2)])
  have fr: "s' = s\<lparr>centerHeightMap := c, mipCenterHeightMaps := m,
           faceNormalsSynced := f, faceNormalsUnsynced := fu, centerNormalsSynced := cn,
           centerNormalsUnsynced := cu, centerNormals2D := c2, slopeMap := sm,
           unsyncedHeightMapUpdates := unsyncedHeightMapUpdates s @ pushed_rects E d r\<rparr>"
    unfolding s'_def g(3) e(3) b(3) a(2) by simp
  have d1: "centerHeightMap s' ! nat (y * mapx d + x) = center_value E d (heightMapSynced s') x y"
    if "in_rect ?cr x y" for x y
  proof -
    have "centerHeightMap s' = centerHeightMap a" "heightMapSynced s' = heightMapSynced s"
      unfolding s'_def g(3) e(3) b(3) a(2) by simp_all
    then show ?thesis using a(4) that by (simp add: in_rect_def)
  qed
  have d2: "mip_avg_ok E d s' i (x div 2) (y div 2)"
    if "0 \<le> i" "i < numHeightMipMaps E - 1" "mip_visited ?cr i x y" for i x y
  proof -
    have "centerHeightMap s' = centerHeightMap b" "mipCenterHeightMaps s' = mipCenterHeightMaps b"
      unfolding s'_def g(3) e(3) by simp_all
    from mip_avg_ok_frame[OF this] b(4) that show ?thesis by simp
  qed
  have d3: "normals_ok E d ?ini s' x y" if "in_rect (face_rect d ?cr) x y" for x y
  proof -
    have "normals_ok E d ?ini s' x y = normals_ok E d ?ini e x y"
      by (rule normals_ok_frame) (simp_all add: s'_def g(3))
    then show ?thesis using e(4) that by simp
  qed
  have d4: "slopeMap s' ! nat (y * hmapx d + x) = slope_value E d (faceNormalsSynced s') x y"
    if "in_rect (slope_rect d ?cr) x y" for x y
  proof -
    have "slopeMap s' = slopeMap g" "faceNormalsSynced s' = faceNormalsSynced e"
      unfolding s'_def g(3) by simp_all
    then show ?thesis using g(4) that by simp
  qed
  have "derived_ok E d r s'" unfolding derived_ok_def
    by (intro conjI allI impI) (use d1 d2 d3 d4 in \<open>simp_all only:\<close>)
  then show ?thesis using run oks fr by (intro exI[of _ s'] conjI) (assumption | rule exI)+
qed

lemma pipeline_idem:
  assumes ok: "buffers_ok E d s" and dv: "derived_ok E d r s"
  shows "UpdateHeightMapSynced E d r s =
           Some (s\<lparr>unsyncedHeightMapUpdates := unsyncedHeightMapUpdates s @ pushed_rects E d r\<rparr>)"
proof -
  let ?ini = "r = \<lparr>x1 = 0, z1 = 0, x2 = mapx d, z2 = mapy d\<rparr>"
  let ?cr = "centerRect d r"
  note rok = centerRect_ok[of d r]
  note D = dv[unfolded derived_ok_def]
  note c1 = D[THEN conjunct1] and c2 = D[THEN conjunct2, THEN conjunct1]
    and c3 = D[THEN conjunct2, THEN conjunct2, THEN conjunct1]
    and c4 = D[THEN conjunct2, THEN conjunct2, THEN conjunct2]
  have 1: "UpdateCenterHeightmap E d ?cr ?ini s = Some s"
    by (rule UpdateCenterHeightmap_idem[OF ok rok]) (use c1 in \<open>simp add: in_rect_def\<close>)
  have 2: "UpdateMipHeightmaps E d ?cr ?ini s = Some s"
    by (rule UpdateMipHeightmaps_idem[OF ok rok c2])
  have 3: "UpdateFaceNormals E d ?cr ?ini s = Some s"
    by (rule UpdateFaceNormals_idem[OF ok c3])
  have 4: "UpdateSlopemap E d ?cr ?ini s = Some s"
    by (rule UpdateSlopemap_idem[OF ok c4])
  show ?thesis unfolding UpdateHeightMapSynced_steps Let_def by (simp add: 1 2 3 4)
qed

section \<open>Concrete states\<close>

lemma sized_state_ok:
  assumes "length hm = 4225"
  shows "buffers_ok real_env \<lparr>mapx = 64, mapy = 64\<rparr> (sized_state 64 hm n)"
proof -
  let ?d = "\<lparr>mapx = 64, mapy = 64\<rparr>"
  have m: "\<forall>i. 1 \<le> i \<and> i < numHeightMipMaps real_env \<longrightarrow>
      int (length (mipCenterHeightMaps (sized_state 64 hm n) ! nat (i - 1)))
           = drop_bit (nat i) (mapx ?d) * drop_bit (nat i) (mapy ?d)"
  proof (intro allI impI)
    fix i :: int assume "1 \<le> i \<and> i < numHeightMipMaps real_env"
    then have "i = 1 \<or> i = 2 \<or> i = 3 \<or> i = 4 \<or> i = 5 \<or> i = 6" by (simp add: real_env_def) arith
    then show "int (length (mipCenterHeightMaps (sized_state 64 hm n) ! nat (i - 1)))
           = drop_bit (nat i) (mapx ?d) * drop_bit (nat i) (mapy ?d)"
      by (elim disjE) (simp_all add: sized_state_def drop_bit_eq_div)
  qed
  show ?thesis unfolding buffers_ok_def
    by (intro conjI m)
       (use assms in \<open>simp_all add: real_env_def sized_state_def mapxp1_def mapyp1_def hmapx_def hmapy_def
        drop_bit_eq_div\<close>)
qed

section \<open>Flat terrain\<close>

lemma UpdateFaceNormals_untouched:
  assumes ok: "buffers_ok E d s" and run: "UpdateFaceNormals E d rect ini s = Some s'"
    and j: "\<forall>x y. in_rect (face_rect d rect) x y \<longrightarrow>
              j \<noteq> nat ((y * mapx d + x) * 2) \<and> j \<noteq> nat ((y * mapx d + x) * 2 + 1)"
  shows "faceNormalsSynced s' ! j = faceNormalsSynced s ! j"
proof -
  let ?Inv = "\<lambda>u. buffers_ok E d u \<and> faceNormalsSynced u ! j = faceNormalsSynced s ! j"
  let ?r = "face_rect d rect"
  have "\<exists>s'. for_step 1 (z1 ?r) (z2 ?r + 1) (\<lambda>y. for_step 1 (x1 ?r) (x2 ?r + 1) (\<lambda>x. UpdateFaceNormals_body E d ini y x)) s = Some s'
     \<and> ?Inv s' \<and> (\<forall>x y. z1 ?r \<le> y \<and> y < z2 ?r + 1 \<and> 1 dvd (y - z1 ?r) \<and> x1 ?r \<le> x \<and> x < x2 ?r + 1 \<and> 1 dvd (x - x1 ?r) \<longrightarrow> True)"
  proof (rule for_rect_rule[where Inv = ?Inv and P = "\<lambda>x y u. True"], goal_cases)
    case 3
    show ?case using ok by simp
  next
    case (4 x y u)
    then have oku: "buffers_ok E d u" and i: "in_rect ?r x y" by (auto simp: in_rect_def)
    note b = face_rect_range[OF oku i]
    have "j \<noteq> nat ((y * mapx d + x) * 2)" "j \<noteq> nat ((y * mapx d + x) * 2 + 1)" using j i by blast+
    then have "faceNormalsSynced (face_write E d ini x y u) ! j = faceNormalsSynced u ! j"
      unfolding face_write_def Let_def by (cases "USE_UNSYNCED_HEIGHTMAP E"; cases ini; simp)
    then show ?case
      using face_body[OF oku b, of ini] face_write_props(1)[OF oku b, of ini] 4(7) by simp
  qed simp_all
  then show ?thesis using run unfolding UpdateFaceNormals_def Let_def by (simp add: face_rect_def)
qed

lemma pipeline_faces_untouched:
  assumes ok: "buffers_ok E d s" and run: "UpdateHeightMapSynced E d r s = Some s'"
    and j: "\<forall>x y. in_rect (face_rect d (centerRect d r)) x y \<longrightarrow>
              j \<noteq> nat ((y * mapx d + x) * 2) \<and> j \<noteq> nat ((y * mapx d + x) * 2 + 1)"
  shows "faceNormalsSynced s' ! j = faceNormalsSynced s ! j"
proof -
  let ?ini = "r = \<lparr>x1 = 0, z1 = 0, x2 = mapx d, z2 = mapy d\<rparr>"
  let ?cr = "centerRect d r"
  note rok = centerRect_ok[of d r]
  from UpdateCenterHeightmap_post[OF ok rok, of ?ini] obtain a c where
    a: "UpdateCenterHeightmap E d ?cr ?ini s = Some a" "a = s\<lparr>centerHeightMap := c\<rparr>"
       "length c = length (centerHeightMap s)"
    by blast
  have oka: "buffers_ok E d a" unfolding a(2) by (rule buffers_ok_frame(1)[OF ok a(3)])
  from UpdateMipHeightmaps_post[OF oka rok, of ?ini] obtain b m where
    b: "UpdateMipHeightmaps E d ?cr ?ini a = Some b" "buffers_ok E d b" "b = a\<lparr>mipCenterHeightMaps := m\<rparr>"
    by blast
  from UpdateFaceNormals_post[OF b(2), of ?cr ?ini] obtain e where
    e: "UpdateFaceNormals E d ?cr ?ini b = Some e" "buffers_ok E d e"
    by blast
  from UpdateSlopemap_post[OF e(2), of ?cr ?ini] obtain g sm where
    g: "UpdateSlopemap E d ?cr ?ini e = Some g" "g = e\<lparr>slopeMap := sm\<rparr>"
    by blast
  have "s' = g\<lparr>unsyncedHeightMapUpdates := unsyncedHeightMapUpdates g @ pushed_rects E d r\<rparr>"
    using run unfolding UpdateHeightMapSynced_steps Let_def by (simp add: a(1) b(1) e(1) g(1))
  then have "faceNormalsSynced s' = faceNormalsSynced e" by (simp add: g(2))
  moreover have "faceNormalsSynced e ! j = faceNormalsSynced b ! j"
    by (rule UpdateFaceNormals_untouched[OF b(2) e(1) j])
  moreover have "faceNormalsSynced b = faceNormalsSynced s" by (simp add: b(3) a(2))
  ultimately show ?thesis by simp
qed

lemma flat_face_up:
  "fy (Normalize_exact (Float3 (- (h - h)) 8 (- (h - h)))) = 1"
  "fy (Normalize_exact (Float3 (h - h) 8 (h - h))) = 1"
proof -
  have "sqrt 64 = sqrt (8\<^sup>2)" by simp
  also have "\<dots> = 8" by (rule real_sqrt_abs2[of 8, simplified abs_numeral] | simp)
  finally have "sqrt 64 = 8" .
  then show "fy (Normalize_exact (Float3 (- (h - h)) 8 (- (h - h)))) = 1"
    "fy (Normalize_exact (Float3 (h - h) 8 (h - h))) = 1"
    by (simp_all add: Normalize_exact_def)
qed

lemma flat_slope_value:
  assumes "fy (fn ! nat (((y * 2) * mapx d + x * 2) * 2)) = 1"
    "fy (fn ! nat (((y * 2) * mapx d + x * 2) * 2 + 1)) = 1"
    "fy (fn ! nat (((y * 2) * mapx d + x * 2 + 1) * 2)) = 1"
    "fy (fn ! nat (((y * 2) * mapx d + x * 2 + 1) * 2 + 1)) = 1"
    "fy (fn ! nat (((y * 2 + 1) * mapx d + x * 2) * 2)) = 1"
    "fy (fn ! nat (((y * 2 + 1) * mapx d + x * 2) * 2 + 1)) = 1"
    "fy (fn ! nat (((y * 2 + 1) * mapx d + x * 2 + 1) * 2)) = 1"
    "fy (fn ! nat (((y * 2 + 1) * mapx d + x * 2 + 1) * 2 + 1)) = 1"
  shows "slope_value real_env d fn x y = 0"
  unfolding slope_value_def Let_def assms
  by (simp add: real_env_def std_min_def mix_exact_def)

lemma face_idx_neq:
  assumes "0 \<le> x" "x < mapx d" "0 \<le> y" "0 \<le> X" "X < mapx d" "0 \<le> Y" "X \<noteq> x \<or> Y \<noteq> y"
  shows "nat ((Y * mapx d + X) * 2) \<noteq> nat ((y * mapx d + x) * 2)"
    "nat ((Y * mapx d + X) * 2) \<noteq> nat ((y * mapx d + x) * 2 + 1)"
    "nat ((Y * mapx d + X) * 2 + 1) \<noteq> nat ((y * mapx d + x) * 2)"
    "nat ((Y * mapx d + X) * 2 + 1) \<noteq> nat ((y * mapx d + x) * 2 + 1)"
proof -
  have "nat (Y * mapx d + X) \<noteq> nat (y * mapx d + x)"
    using center_idx_inj[of x d X y Y] assms by blast
  moreover have k0: "0 \<le> Y * mapx d + X" "0 \<le> y * mapx d + x" using assms by simp_all
  ultimately have kne: "Y * mapx d + X \<noteq> y * mapx d + x" by auto
  show "nat ((Y * mapx d + X) * 2) \<noteq> nat ((y * mapx d + x) * 2)"
    "nat ((Y * mapx d + X) * 2) \<noteq> nat ((y * mapx d + x) * 2 + 1)"
    "nat ((Y * mapx d + X) * 2 + 1) \<noteq> nat ((y * mapx d + x) * 2)"
    "nat ((Y * mapx d + X) * 2 + 1) \<noteq> nat ((y * mapx d + x) * 2 + 1)"
    using kne k0 by (simp_all add: eq_nat_nat_iff)
qed

lemma flat_corner:
  assumes "int (length hm) = mapxp1 d * mapyp1 d" and "\<forall>v \<in> set hm. v = h"
    and "0 \<le> x" "x \<le> mapx d" "0 \<le> y" "y \<le> mapy d"
  shows "corner d hm x y = h"
proof -
  have "0 \<le> y * mapxp1 d + x" "y * mapxp1 d + x < mapxp1 d * mapyp1 d"
    using assms(3-6) by (auto intro!: idx_bounds simp: mapxp1_def mapyp1_def)
  then have "nat (y * mapxp1 d + x) < length hm" using assms(1) by linarith
  then show ?thesis using assms(2) by (simp add: corner_def)
qed

lemma flat_pipeline_slope:
  assumes ok: "buffers_ok real_env d s"
    and flat: "\<forall>v \<in> set (heightMapSynced s). v = h"
    and old: "\<forall>x y. 0 \<le> x \<and> x < mapx d \<and> 0 \<le> y \<and> y < mapy d
                \<and> \<not> in_rect (face_rect d (centerRect d r)) x y \<longrightarrow>
              fy (faceNormalsSynced s ! nat ((y * mapx d + x) * 2)) = 1
            \<and> fy (faceNormalsSynced s ! nat ((y * mapx d + x) * 2 + 1)) = 1"
  shows "\<exists>s'. UpdateHeightMapSynced real_env d r s = Some s'
     \<and> (\<forall>x y. in_rect (slope_rect d (centerRect d r)) x y \<longrightarrow> slopeMap s' ! nat (y * hmapx d + x) = 0)"
proof -
  let ?fr = "face_rect d (centerRect d r)"
  let ?ini = "r = \<lparr>x1 = 0, z1 = 0, x2 = mapx d, z2 = mapy d\<rparr>"
  from pipeline_post[OF ok, of r] obtain s' where
    s': "UpdateHeightMapSynced real_env d r s = Some s'" "buffers_ok real_env d s'" "derived_ok real_env d r s'"
      and "\<exists>c m f fu cn cu c2 sm. s' = s\<lparr>centerHeightMap := c, mipCenterHeightMaps := m,
           faceNormalsSynced := f, faceNormalsUnsynced := fu, centerNormalsSynced := cn,
           centerNormalsUnsynced := cu, centerNormals2D := c2, slopeMap := sm,
           unsyncedHeightMapUpdates := unsyncedHeightMapUpdates s @ pushed_rects real_env d r\<rparr>"
    by blast
  then have hs: "heightMapSynced s' = heightMapSynced s" by auto
  have L: "int (length (heightMapSynced s)) = mapxp1 d * mapyp1 d" using ok by (simp add: buffers_ok_def)
  note D = s'(3)[unfolded derived_ok_def]
  note c3 = D[THEN conjunct2, THEN conjunct2, THEN conjunct1]
    and c4 = D[THEN conjunct2, THEN conjunct2, THEN conjunct2]
  have up: "fy (faceNormalsSynced s' ! nat ((Y * mapx d + X) * 2)) = 1
          \<and> fy (faceNormalsSynced s' ! nat ((Y * mapx d + X) * 2 + 1)) = 1"
    if g: "0 \<le> X" "X < mapx d" "0 \<le> Y" "Y < mapy d" for X Y
  proof (cases "in_rect ?fr X Y")
    case True
    then have n: "normals_ok real_env d ?ini s' X Y" using c3 by blast
    have c: "corner d (heightMapSynced s) X Y = h" "corner d (heightMapSynced s) (X + 1) Y = h"
      "corner d (heightMapSynced s) X (Y + 1) = h" "corner d (heightMapSynced s) (X + 1) (Y + 1) = h"
      using g by (auto intro!: flat_corner[OF L flat])
    have "faceNormalsSynced s' ! nat ((Y * mapx d + X) * 2) = fnTL_value real_env d (heightMapSynced s) X Y"
      "faceNormalsSynced s' ! nat ((Y * mapx d + X) * 2 + 1) = fnBR_value real_env d (heightMapSynced s) X Y"
      using n unfolding normals_ok_def Let_def hs by blast+
    moreover have "fy (fnTL_value real_env d (heightMapSynced s) X Y) = 1"
      "fy (fnBR_value real_env d (heightMapSynced s) X Y) = 1"
      unfolding fnTL_value_def fnBR_value_def c using flat_face_up[of h] by (simp_all add: real_env_def)
    ultimately show ?thesis by simp
  next
    case False
    have ne: "j \<noteq> nat ((y * mapx d + x) * 2) \<and> j \<noteq> nat ((y * mapx d + x) * 2 + 1)"
      if "in_rect ?fr x y" "j = nat ((Y * mapx d + X) * 2) \<or> j = nat ((Y * mapx d + X) * 2 + 1)" for x y j
    proof -
      note b = face_rect_range[OF ok that(1)]
      have "X \<noteq> x \<or> Y \<noteq> y" using False that(1) by auto
      from face_idx_neq[OF b(1,2,3) g(1,2,3) this] that(2) show ?thesis by auto
    qed
    have "faceNormalsSynced s' ! nat ((Y * mapx d + X) * 2) = faceNormalsSynced s ! nat ((Y * mapx d + X) * 2)"
      by (rule pipeline_faces_untouched[OF ok s'(1)]) (use ne in blast)
    moreover have "faceNormalsSynced s' ! nat ((Y * mapx d + X) * 2 + 1) = faceNormalsSynced s ! nat ((Y * mapx d + X) * 2 + 1)"
      by (rule pipeline_faces_untouched[OF ok s'(1)]) (use ne in blast)
    ultimately show ?thesis using old g False by simp
  qed
  have "slopeMap s' ! nat (y * hmapx d + x) = 0" if i: "in_rect (slope_rect d (centerRect d r)) x y" for x y
  proof -
    note b = slope_rect_range[OF i]
    have X: "0 \<le> x * 2" "x * 2 + 1 < mapx d" "0 \<le> x * 2 + 1" "x * 2 < mapx d"
      and Y: "0 \<le> y * 2" "y * 2 + 1 < mapy d" "0 \<le> y * 2 + 1" "y * 2 < mapy d"
      using b by (simp_all add: hmapx_def hmapy_def drop_bit_eq_div)
    have "slope_value real_env d (faceNormalsSynced s') x y = 0"
    proof (rule flat_slope_value)
      show "fy (faceNormalsSynced s' ! nat (((y * 2) * mapx d + x * 2) * 2)) = 1"
        "fy (faceNormalsSynced s' ! nat (((y * 2) * mapx d + x * 2) * 2 + 1)) = 1"
        using up[OF X(1,4) Y(1,4)] by simp_all
      show "fy (faceNormalsSynced s' ! nat (((y * 2) * mapx d + x * 2 + 1) * 2)) = 1"
        "fy (faceNormalsSynced s' ! nat (((y * 2) * mapx d + x * 2 + 1) * 2 + 1)) = 1"
        using up[OF X(3,2) Y(1,4)] by (simp_all add: add.assoc)
      show "fy (faceNormalsSynced s' ! nat (((y * 2 + 1) * mapx d + x * 2) * 2)) = 1"
        "fy (faceNormalsSynced s' ! nat (((y * 2 + 1) * mapx d + x * 2) * 2 + 1)) = 1"
        using up[OF X(1,4) Y(3,2)] by simp_all
      show "fy (faceNormalsSynced s' ! nat (((y * 2 + 1) * mapx d + x * 2 + 1) * 2)) = 1"
        "fy (faceNormalsSynced s' ! nat (((y * 2 + 1) * mapx d + x * 2 + 1) * 2 + 1)) = 1"
        using up[OF X(3,2) Y(3,2)] by (simp_all add: add.assoc)
    qed
    then show ?thesis using c4 i by simp
  qed
  then show ?thesis using s'(1) by blast
qed

section \<open>Height bounds\<close>

lemma std_min_linorder: "std_min (a::'a::linorder) b = min a b"
  by (auto simp: std_min_def min_def)

lemma std_max_linorder: "std_max (a::'a::linorder) b = max a b"
  by (auto simp: std_max_def max_def)

lemma xsimd_min_linorder: "xsimd_min (u::'a::linorder list) v = map2 min u v"
  by (auto simp: xsimd_min_def min_def intro!: map_cong)

lemma xsimd_max_linorder: "xsimd_max (u::'a::linorder list) v = map2 max u v"
  by (auto simp: xsimd_max_def max_def intro!: map_cong)

lemma Min_map2:
  fixes u v :: "'a::linorder list"
  assumes "length u = length v" "u \<noteq> []"
  shows "Min (set (map2 min u v)) = min (Min (set u)) (Min (set v))"
  using assms
proof (induction u v rule: list_induct2)
  case Nil then show ?case by simp
next
  case (Cons a u b v)
  show ?case
  proof (cases "u = []")
    case True
    then show ?thesis using Cons by simp
  next
    case False
    then have "v \<noteq> []" using Cons.hyps by auto
    then have "map2 min u v \<noteq> []" using False by (cases u; cases v) auto
    then show ?thesis using Cons False \<open>v \<noteq> []\<close> by (simp add: min.assoc min.left_commute)
  qed
qed

lemma Max_map2:
  fixes u v :: "'a::linorder list"
  assumes "length u = length v" "u \<noteq> []"
  shows "Max (set (map2 max u v)) = max (Max (set u)) (Max (set v))"
  using assms
proof (induction u v rule: list_induct2)
  case Nil then show ?case by simp
next
  case (Cons a u b v)
  show ?case
  proof (cases "u = []")
    case True
    then show ?thesis using Cons by simp
  next
    case False
    then have "v \<noteq> []" using Cons.hyps by auto
    then have "map2 max u v \<noteq> []" using False by (cases u; cases v) auto
    then show ?thesis using Cons False \<open>v \<noteq> []\<close> by (simp add: max.assoc max.left_commute)
  qed
qed

lemma Min_insert_append:
  fixes lo :: "'a::linorder"
  shows "Min (insert lo (set (xs @ ys))) = min (Min (insert lo (set xs))) (Min (insert lo (set ys)))"
proof -
  have e: "insert lo (set (xs @ ys)) = insert lo (set xs) \<union> insert lo (set ys)" by auto
  show ?thesis unfolding e by (rule Min_Un) auto
qed

lemma Max_insert_append:
  fixes hi :: "'a::linorder"
  shows "Max (insert hi (set (xs @ ys))) = max (Max (insert hi (set xs))) (Max (insert hi (set ys)))"
proof -
  have e: "insert hi (set (xs @ ys)) = insert hi (set xs) \<union> insert hi (set ys)" by auto
  show ?thesis unfolding e by (rule Max_Un) auto
qed

lemma Min_insert_list:
  fixes lo :: "'a::linorder"
  shows "Min (insert lo (set xs)) = (if xs = [] then lo else min lo (Min (set xs)))"
  by simp

lemma Max_insert_list:
  fixes hi :: "'a::linorder"
  shows "Max (insert hi (set xs)) = (if xs = [] then hi else max hi (Max (set xs)))"
  by simp

lemma vec_size:
  fixes w n :: int
  assumes "0 < w" "0 \<le> n"
  shows "0 \<le> n - n mod w" "n - n mod w \<le> n" "w dvd (n - n mod w)"
proof -
  have "n mod w \<le> n" using assms by (simp add: zmod_le_nonneg_dividend)
  then show "0 \<le> n - n mod w" by simp
  show "n - n mod w \<le> n" using assms by simp
  show "w dvd (n - n mod w)" by (simp add: minus_mod_eq_mult_div)
qed

lemma dvd_between:
  fixes w j v :: int
  assumes "0 < w" "w dvd j" "w dvd v" "v \<le> j" "j < v + w"
  shows "j = v"
proof -
  have "w dvd j - v" using assms(2,3) by (rule dvd_diff)
  moreover have "j - v < w" using assms(5) by simp
  ultimately have "j - v \<le> 0" using zdvd_imp_le[of w "j - v"] by linarith
  then show ?thesis using assms(4) by simp
qed

lemma dvd_next:
  fixes w j v :: int
  assumes "0 < w" "w dvd j" "w dvd v" "j < v"
  shows "j + w \<le> v"
proof -
  have "w dvd v - j" using assms(3,2) by (rule dvd_diff)
  then have "w \<le> v - j" using assms(4) by (intro zdvd_imp_le) simp_all
  then show ?thesis by simp
qed

lemma slice_window:
  fixes h :: "'a list"
  assumes "0 \<le> b" "0 \<le> j" "0 < w" "j + w \<le> n"
  shows "take (nat w) (drop (nat (b + j)) h) = take (nat w) (drop (nat j) (take (nat n) (drop (nat b) h)))"
proof -
  have "drop (nat j) (take (nat n) (drop (nat b) h)) = take (nat n - nat j) (drop (nat j + nat b) h)"
    by (simp add: drop_take)
  moreover have "nat w \<le> nat n - nat j" using assms by linarith
  moreover have "nat j + nat b = nat (b + j)" using assms by linarith
  ultimately show ?thesis by (simp add: min_def)
qed

lemma lane_step_min:
  fixes lo :: "'a::linorder"
  assumes "length v = length smin" "v \<noteq> []"
    and "Min (insert lo (set smin)) = Min (insert lo (set pre))"
  shows "Min (insert lo (set (map2 min v smin))) = Min (insert lo (set (pre @ v)))"
proof -
  have ne: "smin \<noteq> []" using assms(1,2) by auto
  have "map2 min v smin \<noteq> []" using ne assms(2) by (cases v; cases smin) auto
  then have "Min (insert lo (set (map2 min v smin))) = min lo (Min (set (map2 min v smin)))"
    by simp
  also have "\<dots> = min lo (min (Min (set v)) (Min (set smin)))"
    using Min_map2[OF assms(1,2)] by simp
  also have "\<dots> = min (min lo (Min (set smin))) (min lo (Min (set v)))"
    by (simp add: min.assoc min.left_commute min.commute)
  also have "\<dots> = min (Min (insert lo (set smin))) (Min (insert lo (set v)))"
    using ne assms(2) by simp
  also have "\<dots> = min (Min (insert lo (set pre))) (Min (insert lo (set v)))"
    by (simp only: assms(3))
  finally show ?thesis by (simp only: Min_insert_append)
qed

lemma lane_step_max:
  fixes hi :: "'a::linorder"
  assumes "length v = length smax" "v \<noteq> []"
    and "Max (insert hi (set smax)) = Max (insert hi (set pre))"
  shows "Max (insert hi (set (map2 max v smax))) = Max (insert hi (set (pre @ v)))"
proof -
  have ne: "smax \<noteq> []" using assms(1,2) by auto
  have "map2 max v smax \<noteq> []" using ne assms(2) by (cases v; cases smax) auto
  then have "Max (insert hi (set (map2 max v smax))) = max hi (Max (set (map2 max v smax)))"
    by simp
  also have "\<dots> = max hi (max (Max (set v)) (Max (set smax)))"
    using Max_map2[OF assms(1,2)] by simp
  also have "\<dots> = max (max hi (Max (set smax))) (max hi (Max (set v)))"
    by (simp add: max.assoc max.left_commute max.commute)
  also have "\<dots> = max (Max (insert hi (set smax))) (Max (insert hi (set v)))"
    using ne assms(2) by simp
  also have "\<dots> = max (Max (insert hi (set pre))) (Max (insert hi (set v)))"
    by (simp only: assms(3))
  finally show ?thesis by (simp only: Max_insert_append)
qed

lemma vector_loop:
  fixes h :: "'a::linorder list"
  assumes w: "0 < w" and b: "0 \<le> b" "b \<le> e" "e \<le> int (length h)"
  shows "\<exists>smin smax. for_step w 0 ((e - b) - (e - b) mod w)
            (\<lambda>idxRel (smin, smax). do {
                simdVec \<leftarrow> load_unaligned h (b + idxRel) w;
                Some (xsimd_min simdVec smin, xsimd_max simdVec smax) })
            (replicate (nat w) lo, replicate (nat w) hi) = Some (smin, smax)
          \<and> length smin = nat w \<and> length smax = nat w
          \<and> Min (insert lo (set smin))
              = Min (insert lo (set (take (nat ((e - b) - (e - b) mod w)) (take (nat (e - b)) (drop (nat b) h)))))
          \<and> Max (insert hi (set smax))
              = Max (insert hi (set (take (nat ((e - b) - (e - b) mod w)) (take (nat (e - b)) (drop (nat b) h)))))"
proof -
  define n where "n = e - b"
  define vs where "vs = n - n mod w"
  define sl where "sl = take (nat n) (drop (nat b) h)"
  have n0: "0 \<le> n" using b by (simp add: n_def)
  have lsl: "length sl = nat n" using b by (simp add: sl_def n_def)
  have vs: "0 \<le> vs" "vs \<le> n" "w dvd vs"
    unfolding vs_def using vec_size[OF w n0] by blast+
  let ?body = "\<lambda>idxRel (smin, smax). do {
                simdVec \<leftarrow> load_unaligned h (b + idxRel) w;
                Some (xsimd_min simdVec smin, xsimd_max simdVec smax) }"
  let ?I = "\<lambda>j (smin, smax). length smin = nat w \<and> length smax = nat w
      \<and> Min (insert lo (set smin)) = Min (insert lo (set (take (nat j) sl)))
      \<and> Max (insert hi (set smax)) = Max (insert hi (set (take (nat j) sl)))"
  have "\<exists>r j. for_step w 0 vs ?body (replicate (nat w) lo, replicate (nat w) hi) = Some r \<and> ?I j r
          \<and> 0 \<le> j \<and> vs \<le> j \<and> w dvd (j - 0) \<and> (if 0 < vs then j < vs + w else j = 0)"
  proof (rule for_step_rule[where I = ?I, OF w], goal_cases)
    case 1
    show ?case using w by simp
  next
    case (2 j t)
    obtain smin smax where t: "t = (smin, smax)" by (cases t)
    have I: "length smin = nat w" "length smax = nat w"
      "Min (insert lo (set smin)) = Min (insert lo (set (take (nat j) sl)))"
      "Max (insert hi (set smax)) = Max (insert hi (set (take (nat j) sl)))"
      using 2(4) unfolding t by simp_all
    have jw: "j + w \<le> vs" using dvd_next[OF w _ vs(3) 2(2)] 2(3) by simp
    define v where "v = take (nat w) (drop (nat j) sl)"
    have ld: "load_unaligned h (b + j) w = Some v"
    proof -
      have "b + j + w \<le> int (length h)" using jw vs(2) b n_def by linarith
      moreover have "take (nat w) (drop (nat (b + j)) h) = v"
        unfolding v_def sl_def by (rule slice_window[OF b(1) 2(1) w]) (use jw vs(2) in linarith)
      ultimately show ?thesis using w b 2(1) by (simp add: load_unaligned_def)
    qed
    have lv: "length v = nat w" using jw vs(2) 2(1) w lsl by (simp add: v_def)
    have tk: "take (nat (j + w)) sl = take (nat j) sl @ v"
      using 2(1) w by (simp add: nat_add_distrib take_add v_def)
    have ne: "v \<noteq> []" using lv w by auto
    have m: "Min (insert lo (set (map2 min v smin))) = Min (insert lo (set (take (nat (j + w)) sl)))"
      unfolding tk by (rule lane_step_min) (simp_all only: lv I ne not_False_eq_True)
    have M: "Max (insert hi (set (map2 max v smax))) = Max (insert hi (set (take (nat (j + w)) sl)))"
      unfolding tk by (rule lane_step_max) (simp_all only: lv I ne not_False_eq_True)
    have "?body j t = Some (map2 min v smin, map2 max v smax)"
      unfolding t by (simp add: ld xsimd_min_linorder xsimd_max_linorder)
    moreover have "?I (j + w) (map2 min v smin, map2 max v smax)"
      using m M lv I(1,2) by (simp del: Min_insert Max_insert)
    ultimately show ?case by blast
  qed
  then obtain smin smax j where p1: "for_step w 0 vs ?body (replicate (nat w) lo, replicate (nat w) hi) = Some (smin, smax)"
      "?I j (smin, smax)" "0 \<le> j" "vs \<le> j" "w dvd j" "if 0 < vs then j < vs + w else j = 0"
    by auto
  have "j = vs"
  proof (cases "0 < vs")
    case True
    then show ?thesis using dvd_between[OF w p1(5) vs(3) p1(4)] p1(6) by simp
  next
    case False
    then show ?thesis using p1(6) vs(1) by simp
  qed
  with p1(1,2) show ?thesis
    unfolding vs_def[symmetric] n_def[symmetric] sl_def[symmetric]
    by (intro exI[of _ smin] exI[of _ smax]) (simp del: Min_insert Max_insert)
qed

lemma scan_bounds_Nil: "scan_bounds p [] = p"
  by (simp add: scan_bounds_def)

lemma scan_bounds_snoc:
  "scan_bounds p (xs @ [a]) = Float2 (min a (f2x (scan_bounds p xs))) (max a (f2y (scan_bounds p xs)))"
proof -
  have "insert (f2x p) (set (xs @ [a])) = insert a (insert (f2x p) (set xs))"
       "insert (f2y p) (set (xs @ [a])) = insert a (insert (f2y p) (set xs))" by auto
  then show ?thesis by (simp add: scan_bounds_def del: set_append)
qed

lemma scan_bounds_append: "scan_bounds p (xs @ ys) = scan_bounds (scan_bounds p xs) ys"
proof (induction ys rule: rev_induct)
  case Nil
  show ?case by (simp add: scan_bounds_Nil)
next
  case (snoc a ys)
  have "scan_bounds p (xs @ ys @ [a]) = scan_bounds p ((xs @ ys) @ [a])" by simp
  also have "\<dots> = scan_bounds (scan_bounds p xs) (ys @ [a])"
    unfolding scan_bounds_snoc snoc.IH ..
  finally show ?case .
qed

lemma scan_bounds_lanes:
  assumes "Min (insert (f2x p) (set smin)) = Min (insert (f2x p) (set xs))"
    and "Max (insert (f2y p) (set smax)) = Max (insert (f2y p) (set xs))"
  shows "Float2 (f2x (scan_bounds p smin)) (f2y (scan_bounds p smax)) = scan_bounds p xs"
  using assms by (simp add: scan_bounds_def del: Min_insert Max_insert)

lemma lane_loop:
  fixes s :: "('a::linorder) CReadMap"
  assumes w: "0 < w" and l: "length smin = nat w" "length smax = nat w"
  shows "for_step 1 0 w (\<lambda>i s. do {
            a \<leftarrow> rd smin i;
            b \<leftarrow> rd smax i;
            Some (s\<lparr>tempHeightBounds :=
                    Float2 (std_min a (f2x (tempHeightBounds s))) (std_max b (f2y (tempHeightBounds s)))\<rparr>) }) s
         = Some (s\<lparr>tempHeightBounds := Float2 (f2x (scan_bounds (tempHeightBounds s) smin))
                                               (f2y (scan_bounds (tempHeightBounds s) smax))\<rparr>)"
proof -
  let ?p = "tempHeightBounds s"
  let ?body = "\<lambda>i s. do {
            a \<leftarrow> rd smin i;
            b \<leftarrow> rd smax i;
            Some (s\<lparr>tempHeightBounds :=
                    Float2 (std_min a (f2x (tempHeightBounds s))) (std_max b (f2y (tempHeightBounds s)))\<rparr>) }"
  let ?I = "\<lambda>i t. t = s\<lparr>tempHeightBounds := Float2 (f2x (scan_bounds ?p (take (nat i) smin)))
                                                     (f2y (scan_bounds ?p (take (nat i) smax)))\<rparr>"
  have "\<exists>r. for_step 1 0 w ?body s = Some r \<and> ?I (max 0 w) r"
  proof (rule for_loop_rule[where I = ?I], goal_cases)
    case 1
    show ?case by (simp add: scan_bounds_Nil)
  next
    case (2 i t)
    have i: "nat i < length smin" "nat i < length smax" using 2 l by linarith+
    have tk: "take (nat (i + 1)) smin = take (nat i) smin @ [smin ! nat i]"
      "take (nat (i + 1)) smax = take (nat i) smax @ [smax ! nat i]"
      using i 2(1) by (simp_all add: nat_add_distrib take_Suc_conv_app_nth)
    have r: "rd smin i = Some (smin ! nat i)" "rd smax i = Some (smax ! nat i)"
      using i 2(1) by (simp_all add: rd_def)
    show ?case
      unfolding tk scan_bounds_snoc r 2(3) by (simp add: std_min_linorder std_max_linorder)
  qed
  then show ?thesis using w l by (simp add: max_def)
qed

lemma remainder_loop:
  fixes s :: "('a::linorder) CReadMap"
  assumes b: "0 \<le> b" "0 \<le> v" "v \<le> n" "b + n \<le> int (length (heightMapSynced s))"
  shows "for_step 1 v n (\<lambda>idxRel s. do {
            h \<leftarrow> rd (heightMapSynced s) (b + idxRel);
            Some (s\<lparr>tempHeightBounds :=
                    Float2 (std_min h (f2x (tempHeightBounds s))) (std_max h (f2y (tempHeightBounds s)))\<rparr>) }) s
         = Some (s\<lparr>tempHeightBounds :=
              scan_bounds (tempHeightBounds s) (drop (nat v) (take (nat n) (drop (nat b) (heightMapSynced s))))\<rparr>)"
proof -
  let ?p = "tempHeightBounds s" and ?h = "heightMapSynced s"
  define sl where "sl = take (nat n) (drop (nat b) ?h)"
  have lsl: "length sl = nat n" using b by (simp add: sl_def)
  let ?body = "\<lambda>idxRel s. do {
            h \<leftarrow> rd (heightMapSynced s) (b + idxRel);
            Some (s\<lparr>tempHeightBounds :=
                    Float2 (std_min h (f2x (tempHeightBounds s))) (std_max h (f2y (tempHeightBounds s)))\<rparr>) }"
  let ?I = "\<lambda>j t. t = s\<lparr>tempHeightBounds := scan_bounds ?p (drop (nat v) (take (nat j) sl))\<rparr>"
  have "\<exists>r. for_step 1 v n ?body s = Some r \<and> ?I (max v n) r"
  proof (rule for_loop_rule[where I = ?I], goal_cases)
    case 1
    show ?case by (simp add: scan_bounds_Nil)
  next
    case (2 j t)
    have j: "0 \<le> j" "nat j < length sl" using 2 b lsl by linarith+
    have "b + j < int (length ?h)" using 2(2) b by linarith
    moreover have "?h ! nat (b + j) = sl ! nat j"
      using j b 2 by (simp add: nat_add_distrib sl_def)
    ultimately have r: "rd (heightMapSynced t) (b + j) = Some (sl ! nat j)"
      using b j by (simp add: rd_def 2(3))
    have "take (nat (j + 1)) sl = take (nat j) sl @ [sl ! nat j]"
      using j by (simp add: nat_add_distrib take_Suc_conv_app_nth)
    moreover have "nat v \<le> length (take (nat j) sl)" using 2(1) j b by simp
    ultimately have tk: "drop (nat v) (take (nat (j + 1)) sl) = drop (nat v) (take (nat j) sl) @ [sl ! nat j]"
      by simp
    show ?case
      unfolding tk scan_bounds_snoc r by (simp add: 2(3) std_min_linorder std_max_linorder)
  qed
  then show ?thesis using b lsl by (simp add: max_def sl_def)
qed

lemma UpdateTempHeightBoundsSIMD_scan:
  fixes E :: "('a::linorder) Env"
  assumes w: "0 < simdSize E" and b: "0 \<le> b" "b \<le> e" "e \<le> int (length (heightMapSynced s))"
  shows "UpdateTempHeightBoundsSIMD E b e s =
     Some (s\<lparr>tempHeightBounds :=
       scan_bounds (tempHeightBounds s) (take (nat (e - b)) (drop (nat b) (heightMapSynced s)))\<rparr>)"
proof -
  let ?w = "simdSize E" and ?h = "heightMapSynced s" and ?p = "tempHeightBounds s"
  define n where "n = e - b"
  define vs where "vs = n - n mod ?w"
  define sl where "sl = take (nat n) (drop (nat b) ?h)"
  have n0: "0 \<le> n" using b by (simp add: n_def)
  have vs: "0 \<le> vs" "vs \<le> n" unfolding vs_def using vec_size[OF w n0] by blast+
  obtain smin smax where p1: "for_step ?w 0 vs
            (\<lambda>idxRel (smin, smax). do {
                simdVec \<leftarrow> load_unaligned ?h (b + idxRel) ?w;
                Some (xsimd_min simdVec smin, xsimd_max simdVec smax) })
            (replicate (nat ?w) (f2x ?p), replicate (nat ?w) (f2y ?p)) = Some (smin, smax)"
     and l: "length smin = nat ?w" "length smax = nat ?w"
     and m: "Min (insert (f2x ?p) (set smin)) = Min (insert (f2x ?p) (set (take (nat vs) sl)))"
            "Max (insert (f2y ?p) (set smax)) = Max (insert (f2y ?p) (set (take (nat vs) sl)))"
    using vector_loop[OF w b, of "f2x ?p" "f2y ?p"] unfolding vs_def n_def sl_def by blast
  define s2 where "s2 = s\<lparr>tempHeightBounds := scan_bounds ?p (take (nat vs) sl)\<rparr>"
  have p2: "for_step 1 0 ?w (\<lambda>i s. do {
            a \<leftarrow> rd smin i;
            b \<leftarrow> rd smax i;
            Some (s\<lparr>tempHeightBounds :=
                    Float2 (std_min a (f2x (tempHeightBounds s))) (std_max b (f2y (tempHeightBounds s)))\<rparr>) }) s
         = Some s2"
    unfolding lane_loop[OF w l] scan_bounds_lanes[OF m] s2_def ..
  have h2: "heightMapSynced s2 = ?h" "tempHeightBounds s2 = scan_bounds ?p (take (nat vs) sl)"
    by (simp_all add: s2_def)
  have "b + n \<le> int (length (heightMapSynced s2))" using b by (simp add: n_def h2)
  note remainder_loop[OF b(1) vs this]
  then have p3: "for_step 1 vs n (\<lambda>idxRel s. do {
            h \<leftarrow> rd (heightMapSynced s) (b + idxRel);
            Some (s\<lparr>tempHeightBounds :=
                    Float2 (std_min h (f2x (tempHeightBounds s))) (std_max h (f2y (tempHeightBounds s)))\<rparr>) }) s2
         = Some (s2\<lparr>tempHeightBounds := scan_bounds (scan_bounds ?p (take (nat vs) sl)) (drop (nat vs) sl)\<rparr>)"
    unfolding h2 sl_def .
  have "scan_bounds (scan_bounds ?p (take (nat vs) sl)) (drop (nat vs) sl) = scan_bounds ?p sl"
    unfolding scan_bounds_append[symmetric] by simp
  then have p3': "for_step 1 vs n (\<lambda>idxRel s. do {
            h \<leftarrow> rd (heightMapSynced s) (b + idxRel);
            Some (s\<lparr>tempHeightBounds :=
                    Float2 (std_min h (f2x (tempHeightBounds s))) (std_max h (f2y (tempHeightBounds s)))\<rparr>) }) s2
         = Some (s\<lparr>tempHeightBounds := scan_bounds ?p sl\<rparr>)"
    using p3 by (simp add: s2_def)
  have ok: "\<not> (?w \<le> 0 \<or> e < b)" using w b by simp
  show ?thesis
    unfolding UpdateTempHeightBoundsSIMD_def Let_def if_not_P[OF ok]
      n_def[symmetric] vs_def[symmetric]
    by (simp only: p1 p2 p3' bind.bind_lunit prod.case) (simp only: sl_def n_def)
qed

lemma sdiv_nonneg: "0 \<le> (a::int) \<Longrightarrow> 0 < p \<Longrightarrow> a sdiv p = a div p"
  by (cases "a = 0") (simp_all add: signed_divide_int_def)

lemma smod_nonneg: "0 \<le> (a::int) \<Longrightarrow> 0 < p \<Longrightarrow> a smod p = a mod p"
  by (cases "a = 0") (simp_all add: signed_modulo_int_def)

lemma slice_bounds:
  fixes k n p :: int
  assumes "0 < p" "0 \<le> n" "0 \<le> k" "k < p"
  shows "0 \<le> k * n div p" "k * n div p \<le> (k + 1) * n div p" "(k + 1) * n div p \<le> n"
proof -
  show "0 \<le> k * n div p" using assms by (simp add: pos_imp_zdiv_nonneg_iff)
  have "k * n \<le> (k + 1) * n" using assms by (simp add: distrib_right)
  then show "k * n div p \<le> (k + 1) * n div p" using assms(1) by (rule zdiv_mono1)
  have "(k + 1) * n \<le> n * p" using assms by (simp add: mult.commute mult_left_mono)
  then have "(k + 1) * n div p \<le> n * p div p" using assms(1) by (rule zdiv_mono1)
  then show "(k + 1) * n div p \<le> n" using assms(1) by simp
qed

lemma take_slice:
  assumes "0 \<le> b" "b \<le> e"
  shows "take (nat b) h @ take (nat (e - b)) (drop (nat b) h) = take (nat e) h"
proof -
  have "nat e = nat b + nat (e - b)" using assms by linarith
  then show ?thesis by (simp add: take_add)
qed

lemma UpdateHeightBounds_frame_first:
  fixes E :: "('a::linorder) Env"
  assumes p: "0 < GAME_SPEED E" and w: "0 < simdSize E"
    and n: "int (length (heightMapSynced s)) = mapxp1 d * mapyp1 d"
    and f: "0 \<le> f" "f mod GAME_SPEED E = 0" and u: "hmUpdated s"
  shows "UpdateHeightBounds_frame E d f s = Some (paced_state E d s 1)"
proof -
  let ?P = "GAME_SPEED E" and ?N = "mapxp1 d * mapyp1 d"
  have n0: "0 \<le> ?N" using n by linarith
  have c: "f smod ?P = 0" using f p by (simp add: smod_nonneg)
  have e: "(0 + 1) * mapxp1 d * mapyp1 d sdiv ?P = ?N div ?P" using n0 p by (simp add: sdiv_nonneg)
  have b: "(0 + 0) * mapxp1 d * mapyp1 d sdiv ?P = 0" by simp
  have le: "?N div ?P \<le> int (length (heightMapSynced s))" "0 \<le> ?N div ?P"
    using slice_bounds[OF p n0, of 0] n p by simp_all
  define s1 where "s1 = (if processingHeightBounds s then s\<lparr>currHeightBounds := tempHeightBounds s\<rparr> else s)
      \<lparr>processingHeightBounds := True, hmUpdated := False,
        tempHeightBounds := Float2 (flt_max E) (flt_lowest E)\<rparr>"
  have h1: "heightMapSynced s1 = heightMapSynced s" "tempHeightBounds s1 = Float2 (flt_max E) (flt_lowest E)"
    by (simp_all add: s1_def)
  have "UpdateHeightBounds_frame E d f s = UpdateTempHeightBoundsSIMD E 0 (?N div ?P) s1"
    unfolding UpdateHeightBounds_frame_def Let_def c e b using p u by (simp add: s1_def)
  also have "\<dots> = Some (s1\<lparr>tempHeightBounds := scan_bounds (tempHeightBounds s1)
       (take (nat (?N div ?P - 0)) (drop (nat 0) (heightMapSynced s1)))\<rparr>)"
    by (rule UpdateTempHeightBoundsSIMD_scan[OF w]) (simp_all add: h1 le)
  also have "\<dots> = Some (paced_state E d s 1)"
    by (simp add: h1 paced_state_def bounds_of_def s1_def)
  finally show ?thesis .
qed

lemma UpdateHeightBounds_frame_next:
  fixes E :: "('a::linorder) Env"
  assumes p: "0 < GAME_SPEED E" and w: "0 < simdSize E"
    and n: "int (length (heightMapSynced s)) = mapxp1 d * mapyp1 d"
    and f: "0 \<le> f" "f mod GAME_SPEED E = k" and k: "1 \<le> k"
  shows "UpdateHeightBounds_frame E d f (paced_state E d s k) = Some (paced_state E d s (k + 1))"
proof -
  let ?P = "GAME_SPEED E" and ?N = "mapxp1 d * mapyp1 d" and ?h = "heightMapSynced s"
  let ?st = "paced_state E d s k"
  have n0: "0 \<le> ?N" using n by linarith
  have kP: "k < ?P" using f(2) p by auto
  have k0: "0 \<le> k" using k by simp
  have c: "f smod ?P = k" using f p by (simp add: smod_nonneg)
  define b where "b = k * ?N div ?P"
  define e where "e = (k + 1) * ?N div ?P"
  have be: "0 \<le> b" "b \<le> e" "e \<le> ?N"
    unfolding b_def e_def using slice_bounds[OF p n0 k0 kP] by blast+
  have b': "(k + 0) * mapxp1 d * mapyp1 d sdiv ?P = b"
    using n0 p k0 by (simp add: sdiv_nonneg b_def mult.assoc)
  have e': "(k + 1) * mapxp1 d * mapyp1 d sdiv ?P = e"
    using n0 p k0 by (simp add: sdiv_nonneg e_def mult.assoc)
  have h1: "heightMapSynced ?st = ?h" "tempHeightBounds ?st = bounds_of E (take (nat b) ?h)"
    "processingHeightBounds ?st"
    by (simp_all add: paced_state_def b_def)
  have "UpdateHeightBounds_frame E d f ?st = UpdateTempHeightBoundsSIMD E b e ?st"
    unfolding UpdateHeightBounds_frame_def Let_def c e' b' using p k h1(3) by simp
  also have "\<dots> = Some (?st\<lparr>tempHeightBounds := scan_bounds (tempHeightBounds ?st)
       (take (nat (e - b)) (drop (nat b) (heightMapSynced ?st)))\<rparr>)"
    by (rule UpdateTempHeightBoundsSIMD_scan[OF w]) (use be n in \<open>simp_all add: h1\<close>)
  also have "scan_bounds (tempHeightBounds ?st) (take (nat (e - b)) (drop (nat b) (heightMapSynced ?st)))
      = bounds_of E (take (nat e) ?h)"
    unfolding h1 bounds_of_def scan_bounds_append[symmetric] take_slice[OF be(1,2)] ..
  also have "?st\<lparr>tempHeightBounds := bounds_of E (take (nat e) ?h)\<rparr> = paced_state E d s (k + 1)"
    by (simp add: paced_state_def e_def)
  finally show ?thesis .
qed

lemma paced_calls_rest:
  fixes E :: "('a::linorder) Env"
  assumes p: "0 < GAME_SPEED E" and w: "0 < simdSize E"
    and n: "int (length (heightMapSynced s)) = mapxp1 d * mapyp1 d"
    and f: "0 \<le> f" "f mod GAME_SPEED E = 0"
  shows "1 \<le> k \<Longrightarrow> k + int j \<le> GAME_SPEED E \<Longrightarrow>
     paced_calls E d j (f + k) (paced_state E d s k) = Some (paced_state E d s (k + int j))"
proof (induction j arbitrary: k)
  case 0
  show ?case by simp
next
  case (Suc j)
  have kP: "0 \<le> k" "k < GAME_SPEED E" using Suc.prems by simp_all
  have "(f + k) mod GAME_SPEED E = (f mod GAME_SPEED E + k) mod GAME_SPEED E"
    by (simp add: mod_add_left_eq)
  also have "\<dots> = k" using kP by (simp add: f(2))
  finally have "(f + k) mod GAME_SPEED E = k" .
  then have "UpdateHeightBounds_frame E d (f + k) (paced_state E d s k) = Some (paced_state E d s (k + 1))"
    using UpdateHeightBounds_frame_next[OF p w n _ _ Suc.prems(1), of "f + k"] f(1) Suc.prems(1) by simp
  moreover have "paced_calls E d j (f + (k + 1)) (paced_state E d s (k + 1))
      = Some (paced_state E d s (k + 1 + int j))"
    using Suc.prems by (intro Suc.IH) simp_all
  ultimately show ?case by (simp add: add.assoc add.commute add.left_commute)
qed

lemma paced_calls_cycle:
  fixes E :: "('a::linorder) Env"
  assumes p: "0 < GAME_SPEED E" and w: "0 < simdSize E"
    and n: "int (length (heightMapSynced s)) = mapxp1 d * mapyp1 d"
    and f: "0 \<le> f" "f mod GAME_SPEED E = 0" and u: "hmUpdated s"
  shows "paced_calls E d (nat (GAME_SPEED E)) f s = Some (paced_state E d s (GAME_SPEED E))"
proof -
  obtain j where j: "nat (GAME_SPEED E) = Suc j" using p by (cases "nat (GAME_SPEED E)") simp_all
  then have j': "1 + int j = GAME_SPEED E" using p by linarith
  have "paced_calls E d j (f + 1) (paced_state E d s 1) = Some (paced_state E d s (1 + int j))"
    by (rule paced_calls_rest[OF p w n f]) (simp_all add: j')
  then show ?thesis
    unfolding j by (simp add: UpdateHeightBounds_frame_first[OF p w n f u] j')
qed

lemma paced_state_full:
  fixes E :: "('a::linorder) Env"
  assumes p: "0 < GAME_SPEED E" and n: "int (length (heightMapSynced s)) = mapxp1 d * mapyp1 d"
  shows "tempHeightBounds (paced_state E d s (GAME_SPEED E)) = bounds_of E (heightMapSynced s)"
    and "currHeightBounds (paced_state E d s k)
           = (if processingHeightBounds s then tempHeightBounds s else currHeightBounds s)"
    and "heightMapSynced (paced_state E d s k) = heightMapSynced s"
  using p n[symmetric] by (simp_all add: paced_state_def)

lemma UpdateHeightBounds_frame_commit:
  fixes E :: "('a::linorder) Env"
  assumes p: "0 < GAME_SPEED E" and f: "0 \<le> f" "f mod GAME_SPEED E = 0"
  shows "UpdateHeightBounds_frame E d f (paced_state E d s k)
     = Some ((paced_state E d s k)\<lparr>currHeightBounds := tempHeightBounds (paced_state E d s k),
                                     processingHeightBounds := False\<rparr>)"
proof -
  have c: "f smod GAME_SPEED E = 0" using f p by (simp add: smod_nonneg)
  show ?thesis
    unfolding UpdateHeightBounds_frame_def Let_def c using p by (simp add: paced_state_def)
qed

lemma UpdateHeightBounds_full:
  fixes E :: "('a::linorder) Env"
  assumes w: "0 < simdSize E" and n: "int (length (heightMapSynced s)) = mapxp1 d * mapyp1 d"
  shows "UpdateHeightBounds E d s
     = Some (s\<lparr>tempHeightBounds := bounds_of E (heightMapSynced s),
               currHeightBounds := bounds_of E (heightMapSynced s)\<rparr>)"
proof -
  let ?s0 = "s\<lparr>tempHeightBounds := Float2 (flt_max E) (flt_lowest E)\<rparr>"
  have "UpdateTempHeightBoundsSIMD E 0 (mapxp1 d * mapyp1 d) ?s0
      = Some (?s0\<lparr>tempHeightBounds := scan_bounds (tempHeightBounds ?s0)
           (take (nat (mapxp1 d * mapyp1 d - 0)) (drop (nat 0) (heightMapSynced ?s0)))\<rparr>)"
    by (rule UpdateTempHeightBoundsSIMD_scan[OF w]) (use n in simp_all)
  then show ?thesis
    unfolding UpdateHeightBounds_def Let_def using n[symmetric] by (simp add: bounds_of_def)
qed

section \<open>Initialization\<close>

lemma mip_alloc:
  fixes g :: "int \<Rightarrow> 'a list"
  assumes "1 \<le> L"
  shows "\<exists>mips. for_step 1 1 L (\<lambda>i mips. wr mips (i - 1) (g i)) (replicate (nat (L - 1)) []) = Some mips
     \<and> int (length mips) = L - 1 \<and> (\<forall>i. 1 \<le> i \<and> i < L \<longrightarrow> mips ! nat (i - 1) = g i)"
proof -
  let ?I = "\<lambda>j m. int (length m) = L - 1 \<and> (\<forall>i. 1 \<le> i \<and> i < j \<longrightarrow> m ! nat (i - 1) = g i)"
  have "\<exists>mips. for_step 1 1 L (\<lambda>i mips. wr mips (i - 1) (g i)) (replicate (nat (L - 1)) []) = Some mips
     \<and> ?I (max 1 L) mips"
  proof (rule for_loop_rule[where I = ?I], goal_cases)
    case 1
    show ?case using assms by auto
  next
    case (2 j m)
    have w: "wr m (j - 1) (g j) = Some (m[nat (j - 1) := g j])"
      using 2 by (intro wr_Some) simp_all
    have "\<forall>i. 1 \<le> i \<and> i < j + 1 \<longrightarrow> m[nat (j - 1) := g j] ! nat (i - 1) = g i"
    proof (intro allI impI)
      fix i assume i: "1 \<le> i \<and> i < j + 1"
      show "m[nat (j - 1) := g j] ! nat (i - 1) = g i"
      proof (cases "i = j")
        case True
        have "nat (j - 1) < length m" using 2 by linarith
        then show ?thesis unfolding True by simp
      next
        case False
        then have "nat (j - 1) \<noteq> nat (i - 1)" using i 2(1) by (simp add: eq_nat_nat_iff)
        moreover have "i < j" using i False by simp
        ultimately show ?thesis using 2(3) i by simp
      qed
    qed
    then show ?case using w 2(3) by simp
  qed
  then show ?thesis using assms by (simp add: max_def)
qed

lemma InitHeightBounds_returns:
  fixes E :: "('a::ord) Env"
  assumes n: "int (length (heightMapSynced s)) = mapxp1 d * mapyp1 d"
    "int (length (mapFileHeightMap s)) = mapxp1 d * mapyp1 d"
    "int (length (originalHeightMap s)) = mapxp1 d * mapyp1 d"
  shows "\<exists>m oh ib tb cb. InitHeightBounds E d s
     = Some (s\<lparr>mapFileHeightMap := m, originalHeightMap := oh, initHeightBounds := ib,
                tempHeightBounds := tb, currHeightBounds := cb\<rparr>)"
proof -
  let ?N = "mapxp1 d * mapyp1 d"
  let ?b1 = "\<lambda>i s. do {
         h \<leftarrow> rd (heightMapSynced s) i;
         mhm \<leftarrow> wr (mapFileHeightMap s) i h;
         Some (s\<lparr>mapFileHeightMap := mhm\<rparr>) }"
  let ?I1 = "\<lambda>(j::int) t. \<exists>m. t = s\<lparr>mapFileHeightMap := m\<rparr> \<and> int (length m) = ?N"
  have "\<exists>s1. for_step 1 0 ?N ?b1 s = Some s1 \<and> ?I1 (max 0 ?N) s1"
  proof (rule for_loop_rule[where I = ?I1], goal_cases)
    case 1
    have "s = s\<lparr>mapFileHeightMap := mapFileHeightMap s\<rparr>" by simp
    then show ?case using n(2) by blast
  next
    case (2 j t)
    then obtain m where t: "t = s\<lparr>mapFileHeightMap := m\<rparr>" "int (length m) = ?N" by blast
    have "?b1 j t = Some (s\<lparr>mapFileHeightMap := m[nat j := heightMapSynced s ! nat j]\<rparr>)"
      using 2(1,2) t n(1) by (simp add: rd_def wr_def)
    moreover have "int (length (m[nat j := heightMapSynced s ! nat j])) = ?N" using t(2) by simp
    ultimately show ?case by blast
  qed
  then obtain m where s1: "for_step 1 0 ?N ?b1 s = Some (s\<lparr>mapFileHeightMap := m\<rparr>)" by blast
  define s2 where "s2 = s\<lparr>mapFileHeightMap := m, initHeightBounds := Float2 (flt_max E) (flt_lowest E),
      tempHeightBounds := Float2 (flt_max E) (flt_lowest E)\<rparr>"
  let ?b2 = "\<lambda>i s. do {
         h \<leftarrow> rd (heightMapSynced s) i;
         ohm \<leftarrow> wr (originalHeightMap s) i h;
         Some (s\<lparr>originalHeightMap := ohm,
                 initHeightBounds := Float2 (std_min (f2x (initHeightBounds s)) h)
                                            (std_max (f2y (initHeightBounds s)) h)\<rparr>) }"
  let ?I2 = "\<lambda>(j::int) t. \<exists>oh ib. t = s2\<lparr>originalHeightMap := oh, initHeightBounds := ib\<rparr>
               \<and> int (length oh) = ?N"
  have "\<exists>s3. for_step 1 0 ?N ?b2 s2 = Some s3 \<and> ?I2 (max 0 ?N) s3"
  proof (rule for_loop_rule[where I = ?I2], goal_cases)
    case 1
    have "s2 = s2\<lparr>originalHeightMap := originalHeightMap s, initHeightBounds := initHeightBounds s2\<rparr>"
      by (simp add: s2_def)
    then show ?case using n(3) by blast
  next
    case (2 j t)
    then obtain oh ib where t: "t = s2\<lparr>originalHeightMap := oh, initHeightBounds := ib\<rparr>"
      "int (length oh) = ?N" by blast
    have "?b2 j t = Some (s2\<lparr>originalHeightMap := oh[nat j := heightMapSynced s ! nat j],
         initHeightBounds := Float2 (std_min (f2x ib) (heightMapSynced s ! nat j))
                                    (std_max (f2y ib) (heightMapSynced s ! nat j))\<rparr>)"
      using 2(1,2) t n(1) by (simp add: rd_def wr_def s2_def)
    moreover have "int (length (oh[nat j := heightMapSynced s ! nat j])) = ?N" using t(2) by simp
    ultimately show ?case by blast
  qed
  then obtain oh ib where s3: "for_step 1 0 ?N ?b2 s2 = Some (s2\<lparr>originalHeightMap := oh, initHeightBounds := ib\<rparr>)"
    by blast
  have "InitHeightBounds E d s = Some (s\<lparr>mapFileHeightMap := m, originalHeightMap := oh,
      initHeightBounds := ib, tempHeightBounds := Float2 (flt_max E) (flt_lowest E),
      currHeightBounds := Float2 (f2x ib) (f2y ib)\<rparr>)"
    unfolding InitHeightBounds_def LoadOriginalHeightMapAndChecksum_def Let_def
    using s3 by (simp add: s1 s2_def)
  then show ?thesis by blast
qed

lemma drop_bit_nonneg: "0 \<le> (x::int) \<Longrightarrow> 0 \<le> drop_bit n x"
  by simp

lemma Initialize_no_exception: "Initialize E d s \<noteq> Some (Inl e)"
  unfolding Initialize_def Let_def by (auto simp: bind_eq_Some_conv)

lemma Initialize_completes:
  fixes E :: "('a::{plus,minus,uminus,times,inverse,ord}) Env"
  assumes pos: "0 < mapx d" "0 < mapy d" and L: "1 \<le> numHeightMipMaps E"
    and dv: "2 ^ nat (numHeightMipMaps E - 1) dvd mapx d" "2 ^ nat (numHeightMipMaps E - 1) dvd mapy d"
    and n: "int (length (heightMapSynced s)) = mapxp1 d * mapyp1 d"
  shows "\<exists>s'. Initialize E d s = Some (Inr s') \<and> buffers_ok E d s'"
proof -
  let ?z3 = "Float3 (lit_0 E) (lit_0 E) (lit_0 E)"
  let ?g = "\<lambda>i. replicate (nat (drop_bit (nat i) (mapx d) * drop_bit (nat i) (mapy d))) (lit_0 E)"
  from mip_alloc[OF L, of ?g] obtain mips where
    mips: "for_step 1 1 (numHeightMipMaps E) (\<lambda>i mips. wr mips (i - 1) (?g i))
             (replicate (nat (numHeightMipMaps E - 1)) []) = Some mips"
      "int (length mips) = numHeightMipMaps E - 1"
      "\<forall>i. 1 \<le> i \<and> i < numHeightMipMaps E \<longrightarrow> mips ! nat (i - 1) = ?g i"
    by blast
  define sA where "sA = s\<lparr>mapFileHeightMap := replicate (nat (mapxp1 d * mapyp1 d)) (lit_0 E),
               originalHeightMap := replicate (nat (mapxp1 d * mapyp1 d)) (lit_0 E),
               faceNormalsSynced := replicate (nat (mapx d * mapy d * 2)) ?z3,
               faceNormalsUnsynced := replicate (nat (mapx d * mapy d * 2)) ?z3,
               centerNormalsSynced := replicate (nat (mapx d * mapy d)) ?z3,
               centerNormalsUnsynced := replicate (nat (mapx d * mapy d)) ?z3,
               centerNormals2D := replicate (nat (mapx d * mapy d)) ?z3,
               centerHeightMap := replicate (nat (mapx d * mapy d)) (lit_0 E),
               mipCenterHeightMaps := mips,
               slopeMap := replicate (nat (hmapx d * hmapy d)) (lit_0 E),
               typeMap := replicate (nat (hmapx d * hmapy d)) 0,
               visVertexNormals := replicate (nat (mapxp1 d * mapyp1 d)) ?z3\<rparr>"
  have n0: "0 \<le> mapxp1 d * mapyp1 d" using n by linarith
  have xy: "0 \<le> mapx d * mapy d" using pos by simp
  have hxy: "0 \<le> hmapx d * hmapy d" using pos by (simp add: hmapx_def hmapy_def)
  have lv: "\<forall>i. 1 \<le> i \<and> i < numHeightMipMaps E \<longrightarrow>
         int (length (mipCenterHeightMaps sA ! nat (i - 1)))
           = drop_bit (nat i) (mapx d) * drop_bit (nat i) (mapy d)"
  proof (intro allI impI)
    fix i assume i: "1 \<le> i \<and> i < numHeightMipMaps E"
    have "0 \<le> drop_bit (nat i) (mapx d) * drop_bit (nat i) (mapy d)" using pos by simp
    then show "int (length (mipCenterHeightMaps sA ! nat (i - 1)))
           = drop_bit (nat i) (mapx d) * drop_bit (nat i) (mapy d)"
      using mips(3) i by (simp add: sA_def)
  qed
  have okA: "buffers_ok E d sA"
    unfolding buffers_ok_def
    by (intro conjI pos L dv lv) (use n xy hxy mips(2) in \<open>simp_all add: sA_def\<close>)
  have "int (length (heightMapSynced sA)) = mapxp1 d * mapyp1 d"
    "int (length (mapFileHeightMap sA)) = mapxp1 d * mapyp1 d"
    "int (length (originalHeightMap sA)) = mapxp1 d * mapyp1 d"
    using n n0 by (simp_all add: sA_def)
  from InitHeightBounds_returns[OF this, of E] obtain m oh ib tb cb where
    sB: "InitHeightBounds E d sA = Some (sA\<lparr>mapFileHeightMap := m, originalHeightMap := oh,
      initHeightBounds := ib, tempHeightBounds := tb, currHeightBounds := cb\<rparr>)"
    by blast
  let ?sB = "sA\<lparr>mapFileHeightMap := m, originalHeightMap := oh,
      initHeightBounds := ib, tempHeightBounds := tb, currHeightBounds := cb\<rparr>"
  have okB: "buffers_ok E d ?sB" using okA by (simp add: buffers_ok_def)
  from pipeline_post[OF okB, of "\<lparr>x1 = 0, z1 = 0, x2 = mapx d, z2 = mapy d\<rparr>"] obtain s' where
    s': "UpdateHeightMapSynced E d \<lparr>x1 = 0, z1 = 0, x2 = mapx d, z2 = mapy d\<rparr> ?sB = Some s'"
      "buffers_ok E d s'"
    by blast
  have "Initialize E d s = Some (Inr s')"
    unfolding Initialize_def Let_def mips(1) using sB s'(1) by (simp add: sA_def)
  then show ?thesis using s'(2) by blast
qed

lemma sqrt64: "sqrt 64 = 8"
proof -
  have "sqrt 64 = sqrt (8\<^sup>2)" by simp
  also have "\<dots> = 8" by (rule real_sqrt_abs2[of 8, simplified abs_numeral] | simp)
  finally show ?thesis .
qed

section \<open>Face normals and slope cells after a run of the pipeline\<close>

lemma pipeline_face_pred:
  assumes ok: "buffers_ok E d s" and run: "UpdateHeightMapSynced E d r s = Some s'"
    and new: "\<forall>X Y. 0 \<le> X \<and> X < mapx d \<and> 0 \<le> Y \<and> Y < mapy d \<longrightarrow>
                P (fnTL_value E d (heightMapSynced s) X Y) \<and> P (fnBR_value E d (heightMapSynced s) X Y)"
    and old: "\<forall>x y. 0 \<le> x \<and> x < mapx d \<and> 0 \<le> y \<and> y < mapy d
                \<and> \<not> in_rect (face_rect d (centerRect d r)) x y \<longrightarrow>
              P (faceNormalsSynced s ! nat ((y * mapx d + x) * 2))
            \<and> P (faceNormalsSynced s ! nat ((y * mapx d + x) * 2 + 1))"
    and g: "0 \<le> X" "X < mapx d" "0 \<le> Y" "Y < mapy d"
  shows "P (faceNormalsSynced s' ! nat ((Y * mapx d + X) * 2))
       \<and> P (faceNormalsSynced s' ! nat ((Y * mapx d + X) * 2 + 1))"
proof -
  let ?fr = "face_rect d (centerRect d r)"
  let ?ini = "r = \<lparr>x1 = 0, z1 = 0, x2 = mapx d, z2 = mapy d\<rparr>"
  from pipeline_post[OF ok, of r] run have D: "derived_ok E d r s'"
    and "\<exists>c m f fu cn cu c2 sm. s' = s\<lparr>centerHeightMap := c, mipCenterHeightMaps := m,
           faceNormalsSynced := f, faceNormalsUnsynced := fu, centerNormalsSynced := cn,
           centerNormalsUnsynced := cu, centerNormals2D := c2, slopeMap := sm,
           unsyncedHeightMapUpdates := unsyncedHeightMapUpdates s @ pushed_rects E d r\<rparr>"
    by auto
  then have hs: "heightMapSynced s' = heightMapSynced s" by auto
  note c3 = D[unfolded derived_ok_def, THEN conjunct2, THEN conjunct2, THEN conjunct1]
  show ?thesis
  proof (cases "in_rect ?fr X Y")
    case True
    then have n: "normals_ok E d ?ini s' X Y" using c3 by blast
    have "faceNormalsSynced s' ! nat ((Y * mapx d + X) * 2) = fnTL_value E d (heightMapSynced s) X Y"
      "faceNormalsSynced s' ! nat ((Y * mapx d + X) * 2 + 1) = fnBR_value E d (heightMapSynced s) X Y"
      using n unfolding normals_ok_def Let_def hs by blast+
    then show ?thesis using new g by simp
  next
    case False
    have ne: "j \<noteq> nat ((y * mapx d + x) * 2) \<and> j \<noteq> nat ((y * mapx d + x) * 2 + 1)"
      if "in_rect ?fr x y" "j = nat ((Y * mapx d + X) * 2) \<or> j = nat ((Y * mapx d + X) * 2 + 1)" for x y j
    proof -
      note b = face_rect_range[OF ok that(1)]
      have "X \<noteq> x \<or> Y \<noteq> y" using False that(1) by auto
      from face_idx_neq[OF b(1,2,3) g(1,2,3) this] that(2) show ?thesis by auto
    qed
    have "faceNormalsSynced s' ! nat ((Y * mapx d + X) * 2) = faceNormalsSynced s ! nat ((Y * mapx d + X) * 2)"
      by (rule pipeline_faces_untouched[OF ok run]) (use ne in blast)
    moreover have "faceNormalsSynced s' ! nat ((Y * mapx d + X) * 2 + 1) = faceNormalsSynced s ! nat ((Y * mapx d + X) * 2 + 1)"
      by (rule pipeline_faces_untouched[OF ok run]) (use ne in blast)
    ultimately show ?thesis using old g False by simp
  qed
qed

lemma pipeline_slope_pred:
  assumes ok: "buffers_ok E d s" and run: "UpdateHeightMapSynced E d r s = Some s'"
    and new: "\<forall>X Y. 0 \<le> X \<and> X < mapx d \<and> 0 \<le> Y \<and> Y < mapy d \<longrightarrow>
                P (fnTL_value E d (heightMapSynced s) X Y) \<and> P (fnBR_value E d (heightMapSynced s) X Y)"
    and old: "\<forall>x y. 0 \<le> x \<and> x < mapx d \<and> 0 \<le> y \<and> y < mapy d
                \<and> \<not> in_rect (face_rect d (centerRect d r)) x y \<longrightarrow>
              P (faceNormalsSynced s ! nat ((y * mapx d + x) * 2))
            \<and> P (faceNormalsSynced s ! nat ((y * mapx d + x) * 2 + 1))"
    and i: "in_rect (slope_rect d (centerRect d r)) x y"
  shows "\<exists>n0 n1 n2 n3 n4 n5 n6 n7. P n0 \<and> P n1 \<and> P n2 \<and> P n3 \<and> P n4 \<and> P n5 \<and> P n6 \<and> P n7
     \<and> slopeMap s' ! nat (y * hmapx d + x) =
         lit_1 E - mix E
           (std_min (std_min (std_min (std_min (std_min (std_min (std_min
                       (fy n0) (fy n1)) (fy n2)) (fy n3)) (fy n4)) (fy n5)) (fy n6)) (fy n7))
           ((lit_0 E + fy n0 + fy n1 + fy n2 + fy n3 + fy n4 + fy n5 + fy n6 + fy n7) * lit_0_125 E)
           (std_min (std_min (std_min (std_min (std_min (std_min (std_min
                       (fy n0) (fy n1)) (fy n2)) (fy n3)) (fy n4)) (fy n5)) (fy n6)) (fy n7)
            / ((lit_0 E + fy n0 + fy n1 + fy n2 + fy n3 + fy n4 + fy n5 + fy n6 + fy n7) * lit_0_125 E))"
proof -
  from pipeline_post[OF ok, of r] run have D: "derived_ok E d r s'" by auto
  note c4 = D[unfolded derived_ok_def, THEN conjunct2, THEN conjunct2, THEN conjunct2]
  note b = slope_rect_range[OF i]
  have X: "0 \<le> x * 2" "x * 2 + 1 < mapx d" "0 \<le> x * 2 + 1" "x * 2 < mapx d"
    and Y: "0 \<le> y * 2" "y * 2 + 1 < mapy d" "0 \<le> y * 2 + 1" "y * 2 < mapy d"
    using b by (simp_all add: hmapx_def hmapy_def drop_bit_eq_div)
  note up = pipeline_face_pred[of E d s r s' P, OF ok run new old]
  let ?f = "faceNormalsSynced s'"
  have p: "P (?f ! nat (((y * 2) * mapx d + x * 2) * 2))"
        "P (?f ! nat (((y * 2) * mapx d + x * 2) * 2 + 1))"
        "P (?f ! nat (((y * 2) * mapx d + x * 2 + 1) * 2))"
        "P (?f ! nat (((y * 2) * mapx d + x * 2 + 1) * 2 + 1))"
        "P (?f ! nat (((y * 2 + 1) * mapx d + x * 2) * 2))"
        "P (?f ! nat (((y * 2 + 1) * mapx d + x * 2) * 2 + 1))"
        "P (?f ! nat (((y * 2 + 1) * mapx d + x * 2 + 1) * 2))"
        "P (?f ! nat (((y * 2 + 1) * mapx d + x * 2 + 1) * 2 + 1))"
    using up[OF X(1,4) Y(1,4)] up[OF X(3,2) Y(1,4)] up[OF X(1,4) Y(3,2)] up[OF X(3,2) Y(3,2)]
    by (simp_all add: add.assoc)
  have "slopeMap s' ! nat (y * hmapx d + x) = slope_value E d ?f x y" using c4 i by blast
  note e = this[unfolded slope_value_def Let_def]
  show ?thesis
    apply (rule exI[of _ "?f ! nat (((y * 2) * mapx d + x * 2) * 2)"])
    apply (rule exI[of _ "?f ! nat (((y * 2) * mapx d + x * 2) * 2 + 1)"])
    apply (rule exI[of _ "?f ! nat (((y * 2) * mapx d + x * 2 + 1) * 2)"])
    apply (rule exI[of _ "?f ! nat (((y * 2) * mapx d + x * 2 + 1) * 2 + 1)"])
    apply (rule exI[of _ "?f ! nat (((y * 2 + 1) * mapx d + x * 2) * 2)"])
    apply (rule exI[of _ "?f ! nat (((y * 2 + 1) * mapx d + x * 2) * 2 + 1)"])
    apply (rule exI[of _ "?f ! nat (((y * 2 + 1) * mapx d + x * 2 + 1) * 2)"])
    apply (rule exI[of _ "?f ! nat (((y * 2 + 1) * mapx d + x * 2 + 1) * 2 + 1)"])
    by (intro conjI p e)
qed

section \<open>Exact arithmetic of the slope blend\<close>

lemma normal_fy_exact:
  "fy (Normalize real_env (Float3 a (SQUARE_SIZE real_env) b)) = 8 / sqrt (a\<^sup>2 + 64 + b\<^sup>2)"
  by (simp add: real_env_def Normalize_exact_def Let_def power2_eq_square)

lemma normal_length_ge: "8 \<le> sqrt ((a::real)\<^sup>2 + 64 + b\<^sup>2)"
proof -
  have "sqrt 64 \<le> sqrt (a\<^sup>2 + 64 + b\<^sup>2)" by (rule real_sqrt_le_mono) simp
  then show ?thesis by (simp add: sqrt64)
qed

lemma normal_fy_unit:
  "0 < fy (Normalize real_env (Float3 a (SQUARE_SIZE real_env) b))
   \<and> fy (Normalize real_env (Float3 a (SQUARE_SIZE real_env) b)) \<le> 1"
proof -
  have l: "8 \<le> sqrt (a\<^sup>2 + 64 + b\<^sup>2)" by (rule normal_length_ge)
  then have p: "0 < sqrt (a\<^sup>2 + 64 + b\<^sup>2)" by linarith
  then have "0 < 8 / sqrt (a\<^sup>2 + 64 + b\<^sup>2)" by (intro divide_pos_pos) simp_all
  moreover have "8 / sqrt (a\<^sup>2 + 64 + b\<^sup>2) \<le> 1" using l p by (simp only: divide_le_eq_1_pos)
  ultimately show ?thesis unfolding normal_fy_exact by simp
qed

lemma std_min_bounds:
  fixes a b :: real
  shows "std_min a b \<le> a" "std_min a b \<le> b" "0 < a \<Longrightarrow> 0 < b \<Longrightarrow> 0 < std_min a b"
  by (simp_all add: std_min_def)

lemma blend_in_unit_interval:
  fixes a0 :: real
  assumes "0 < a0 \<and> a0 \<le> 1" "0 < a1 \<and> a1 \<le> 1" "0 < a2 \<and> a2 \<le> 1" "0 < a3 \<and> a3 \<le> 1"
    "0 < a4 \<and> a4 \<le> 1" "0 < a5 \<and> a5 \<le> 1" "0 < a6 \<and> a6 \<le> 1" "0 < a7 \<and> a7 \<le> 1"
  defines "m \<equiv> std_min (std_min (std_min (std_min (std_min (std_min (std_min a0 a1) a2) a3) a4) a5) a6) a7"
    and "avg \<equiv> (lit_0 real_env + a0 + a1 + a2 + a3 + a4 + a5 + a6 + a7) * lit_0_125 real_env"
  shows "0 \<le> lit_1 real_env - mix real_env m avg (m / avg)"
    and "lit_1 real_env - mix real_env m avg (m / avg) \<le> 1"
proof -
  define m1 where "m1 = std_min a0 a1"
  define m2 where "m2 = std_min m1 a2"
  define m3 where "m3 = std_min m2 a3"
  define m4 where "m4 = std_min m3 a4"
  define m5 where "m5 = std_min m4 a5"
  define m6 where "m6 = std_min m5 a6"
  have m: "m = std_min m6 a7" by (simp add: m_def m1_def m2_def m3_def m4_def m5_def m6_def)
  have p1: "0 < m1" "m1 \<le> a0" "m1 \<le> a1"
    unfolding m1_def using assms(1,2) by (simp_all only: std_min_bounds)
  have p2: "0 < m2" "m2 \<le> m1" "m2 \<le> a2"
    unfolding m2_def using p1(1) assms(3) by (simp_all only: std_min_bounds)
  have p3: "0 < m3" "m3 \<le> m2" "m3 \<le> a3"
    unfolding m3_def using p2(1) assms(4) by (simp_all only: std_min_bounds)
  have p4: "0 < m4" "m4 \<le> m3" "m4 \<le> a4"
    unfolding m4_def using p3(1) assms(5) by (simp_all only: std_min_bounds)
  have p5: "0 < m5" "m5 \<le> m4" "m5 \<le> a5"
    unfolding m5_def using p4(1) assms(6) by (simp_all only: std_min_bounds)
  have p6: "0 < m6" "m6 \<le> m5" "m6 \<le> a6"
    unfolding m6_def using p5(1) assms(7) by (simp_all only: std_min_bounds)
  have p7: "0 < m" "m \<le> m6" "m \<le> a7"
    unfolding m using p6(1) assms(8) by (simp_all only: std_min_bounds)
  have avg: "avg * 8 = a0 + a1 + a2 + a3 + a4 + a5 + a6 + a7"
    by (simp add: avg_def real_env_def)
  have "m * 8 \<le> a0 + a1 + a2 + a3 + a4 + a5 + a6 + a7"
    using p1(2,3) p2(2,3) p3(2,3) p4(2,3) p5(2,3) p6(2,3) p7(2,3) by linarith
  then have ma: "m \<le> avg" using avg by linarith
  have "a0 + a1 + a2 + a3 + a4 + a5 + a6 + a7 \<le> 8" using assms(1-8) by linarith
  then have a1: "avg \<le> 1" using avg by linarith
  have apos: "0 < avg" using p7(1) ma by linarith
  have q: "0 \<le> m / avg" "m / avg \<le> 1"
    using p7(1) apos ma by (simp_all only: divide_le_eq_1_pos divide_nonneg_pos less_imp_le)
  define z where "z = (avg - m) * (m / avg)"
  have "(avg - m) * (m / avg) \<le> (avg - m) * 1"
    using q(2) ma by (intro mult_left_mono) simp_all
  then have z1: "z \<le> avg - m" by (simp add: z_def)
  have z0: "0 \<le> z" unfolding z_def using q(1) ma by (intro mult_nonneg_nonneg) simp_all
  have b: "0 < m + z" "m + z \<le> 1" using z0 z1 p7(1) a1 by linarith+
  have e: "lit_1 real_env - mix real_env m avg (m / avg) = 1 - (m + z)"
    by (simp add: real_env_def mix_exact_def z_def)
  show "0 \<le> lit_1 real_env - mix real_env m avg (m / avg)"
    "lit_1 real_env - mix real_env m avg (m / avg) \<le> 1"
    unfolding e using b by linarith+
qed

lemma blend_of_equal:
  fixes c :: real
  assumes "0 < c"
  shows "lit_1 real_env - mix real_env
           (std_min (std_min (std_min (std_min (std_min (std_min (std_min c c) c) c) c) c) c) c)
           ((lit_0 real_env + c + c + c + c + c + c + c + c) * lit_0_125 real_env)
           (std_min (std_min (std_min (std_min (std_min (std_min (std_min c c) c) c) c) c) c) c
            / ((lit_0 real_env + c + c + c + c + c + c + c + c) * lit_0_125 real_env)) = 1 - c"
  using assms by (simp add: real_env_def mix_exact_def std_min_def)

lemma steepness_value:
  fixes g :: real
  shows "0 \<le> 1 - 8 / sqrt (g\<^sup>2 + 64)" "1 - 8 / sqrt (g\<^sup>2 + 64) < 1"
    "1 - 8 / sqrt (g\<^sup>2 + 64) = 0 \<longleftrightarrow> g = 0"
    "\<bar>g\<bar> < \<bar>g'\<bar> \<Longrightarrow> 1 - 8 / sqrt (g\<^sup>2 + 64) < 1 - 8 / sqrt (g'\<^sup>2 + 64)"
proof -
  have l: "8 \<le> sqrt (g\<^sup>2 + 64)" using normal_length_ge[of g 0] by (simp add: add.commute)
  then have p: "0 < sqrt (g\<^sup>2 + 64)" by linarith
  have q: "8 / sqrt (g\<^sup>2 + 64) \<le> 1" using l p by (simp only: divide_le_eq_1_pos)
  have r: "0 < 8 / sqrt (g\<^sup>2 + 64)" using p by (intro divide_pos_pos) simp_all
  show "0 \<le> 1 - 8 / sqrt (g\<^sup>2 + 64)" using q by linarith
  show "1 - 8 / sqrt (g\<^sup>2 + 64) < 1" using r by linarith
  have "sqrt (g\<^sup>2 + 64) = 8 \<longleftrightarrow> g = 0"
  proof
    assume "sqrt (g\<^sup>2 + 64) = 8"
    then have "sqrt (g\<^sup>2 + 64) = sqrt 64" by (simp add: sqrt64)
    then have "g\<^sup>2 + 64 = 64" by (simp only: real_sqrt_eq_iff)
    then show "g = 0" by simp
  next
    assume "g = 0" then show "sqrt (g\<^sup>2 + 64) = 8" by (simp add: sqrt64)
  qed
  moreover have "8 / sqrt (g\<^sup>2 + 64) = 1 \<longleftrightarrow> sqrt (g\<^sup>2 + 64) = 8"
    using p by (auto simp: divide_eq_eq)
  moreover have "1 - 8 / sqrt (g\<^sup>2 + 64) = 0 \<longleftrightarrow> 8 / sqrt (g\<^sup>2 + 64) = 1" by linarith
  ultimately show "1 - 8 / sqrt (g\<^sup>2 + 64) = 0 \<longleftrightarrow> g = 0" by blast
  assume "\<bar>g\<bar> < \<bar>g'\<bar>"
  then have "\<bar>g\<bar>\<^sup>2 < \<bar>g'\<bar>\<^sup>2" by (intro power_strict_mono) simp_all
  then have "g\<^sup>2 < g'\<^sup>2" by simp
  then have "sqrt (g\<^sup>2 + 64) < sqrt (g'\<^sup>2 + 64)" by simp
  then have "8 / sqrt (g'\<^sup>2 + 64) < 8 / sqrt (g\<^sup>2 + 64)"
    using p by (intro divide_strict_left_mono mult_pos_pos) simp_all
  then show "1 - 8 / sqrt (g\<^sup>2 + 64) < 1 - 8 / sqrt (g'\<^sup>2 + 64)" by linarith
qed

lemma computed_normals_unit:
  "\<forall>X Y. 0 \<le> X \<and> X < mapx d \<and> 0 \<le> Y \<and> Y < mapy d \<longrightarrow>
      (0 < fy (fnTL_value real_env d hm X Y) \<and> fy (fnTL_value real_env d hm X Y) \<le> 1)
    \<and> (0 < fy (fnBR_value real_env d hm X Y) \<and> fy (fnBR_value real_env d hm X Y) \<le> 1)"
  unfolding fnTL_value_def fnBR_value_def
  by (intro allI impI conjI normal_fy_unit[THEN conjunct1] normal_fy_unit[THEN conjunct2])

lemma sqrt100: "sqrt 100 = 10"
proof -
  have "sqrt 100 = sqrt (10\<^sup>2)" by simp
  also have "\<dots> = 10" by (rule real_sqrt_abs2[of 10, simplified abs_numeral] | simp)
  finally show ?thesis .
qed

lemma ramp_normals:
  assumes ramp: "\<forall>x y. 0 \<le> x \<and> x \<le> mapx d \<and> 0 \<le> y \<and> y \<le> mapy d \<longrightarrow>
              corner d hm x y = h + g * real_of_int x"
  shows "\<forall>X Y. 0 \<le> X \<and> X < mapx d \<and> 0 \<le> Y \<and> Y < mapy d \<longrightarrow>
      fy (fnTL_value real_env d hm X Y) = 8 / sqrt (g\<^sup>2 + 64)
    \<and> fy (fnBR_value real_env d hm X Y) = 8 / sqrt (g\<^sup>2 + 64)"
proof (intro allI impI)
  fix X Y :: int
  assume a: "0 \<le> X \<and> X < mapx d \<and> 0 \<le> Y \<and> Y < mapy d"
  have c: "corner d hm X Y = h + g * real_of_int X"
    "corner d hm (X + 1) Y = h + g * real_of_int (X + 1)"
    "corner d hm X (Y + 1) = h + g * real_of_int X"
    "corner d hm (X + 1) (Y + 1) = h + g * real_of_int (X + 1)"
    using a ramp by simp_all
  have e: "- (h + g * real_of_int (X + 1) - (h + g * real_of_int X)) = - g"
    "- (h + g * real_of_int X - (h + g * real_of_int X)) = 0"
    "h + g * real_of_int X - (h + g * real_of_int (X + 1)) = - g"
    "h + g * real_of_int (X + 1) - (h + g * real_of_int (X + 1)) = 0"
    by (simp_all add: algebra_simps)
  show "fy (fnTL_value real_env d hm X Y) = 8 / sqrt (g\<^sup>2 + 64)
    \<and> fy (fnBR_value real_env d hm X Y) = 8 / sqrt (g\<^sup>2 + 64)"
    unfolding fnTL_value_def fnBR_value_def c e normal_fy_exact by simp
qed

lemma ramp_grid_corner:
  assumes "0 \<le> x" "x \<le> 64" "0 \<le> y" "y \<le> 64"
  shows "corner \<lparr>mapx = 64, mapy = 64\<rparr> (map (\<lambda>i. 6 * real (i mod 65)) [0..<4225]) x y
      = 0 + 6 * real_of_int x"
proof -
  have n: "nat (y * 65 + x) = nat y * 65 + nat x" using assms by linarith
  have "nat y * 65 + nat x < 4225" using assms by linarith
  then have "map (\<lambda>i. 6 * real (i mod 65)) [0..<4225] ! (nat y * 65 + nat x)
      = 6 * real ((nat y * 65 + nat x) mod 65)" by simp
  moreover have "(nat y * 65 + nat x) mod 65 = nat x" using assms by simp
  moreover have "real (nat x) = real_of_int x" using assms by simp
  ultimately show ?thesis by (simp add: corner_def mapxp1_def n)
qed

lemma sized_state_faces_ramp:
  assumes "0 \<le> x" "x < 64" "0 \<le> y" "y < 64"
  shows "fy (faceNormalsSynced (sized_state 64 hm (Float3 0 (4 / 5) 0)) ! nat ((y * mapx \<lparr>mapx = 64, mapy = 64\<rparr> + x) * 2)) = 4 / 5"
    "fy (faceNormalsSynced (sized_state 64 hm (Float3 0 (4 / 5) 0)) ! nat ((y * mapx \<lparr>mapx = 64, mapy = 64\<rparr> + x) * 2 + 1)) = 4 / 5"
proof -
  have "(y * 64 + x) * 2 + 1 < 64 * 64 * 2"
    using face_idx(2)[of x "\<lparr>mapx = 64, mapy = 64\<rparr>" y] assms by simp
  then have "nat ((y * 64 + x) * 2) < 8192" "nat ((y * 64 + x) * 2 + 1) < 8192" by linarith+
  then show "fy (faceNormalsSynced (sized_state 64 hm (Float3 0 (4 / 5) 0)) ! nat ((y * mapx \<lparr>mapx = 64, mapy = 64\<rparr> + x) * 2)) = 4 / 5"
    "fy (faceNormalsSynced (sized_state 64 hm (Float3 0 (4 / 5) 0)) ! nat ((y * mapx \<lparr>mapx = 64, mapy = 64\<rparr> + x) * 2 + 1)) = 4 / 5"
    by (simp_all add: sized_state_def)
qed

section \<open>The mip levels after a run of the pipeline\<close>

lemma pipeline_mips_frame:
  assumes ok: "buffers_ok E d s"
    and st: "(UpdateCenterHeightmap E d (centerRect d r) (r = \<lparr>x1 = 0, z1 = 0, x2 = mapx d, z2 = mapy d\<rparr>) s
              \<bind> UpdateMipHeightmaps E d (centerRect d r) (r = \<lparr>x1 = 0, z1 = 0, x2 = mapx d, z2 = mapy d\<rparr>))
             = Some b"
  shows "\<exists>s'. UpdateHeightMapSynced E d r s = Some s'
     \<and> mipCenterHeightMaps s' = mipCenterHeightMaps b \<and> centerHeightMap s' = centerHeightMap b"
proof -
  let ?ini = "r = \<lparr>x1 = 0, z1 = 0, x2 = mapx d, z2 = mapy d\<rparr>"
  let ?cr = "centerRect d r"
  note rok = centerRect_ok[of d r]
  from st obtain a where a: "UpdateCenterHeightmap E d ?cr ?ini s = Some a"
    and b: "UpdateMipHeightmaps E d ?cr ?ini a = Some b"
    by (auto simp: bind_eq_Some_conv)
  from UpdateCenterHeightmap_post[OF ok rok, of ?ini] a obtain c where
    c: "a = s\<lparr>centerHeightMap := c\<rparr>" "length c = length (centerHeightMap s)" by auto
  have oka: "buffers_ok E d a" unfolding c(1) by (rule buffers_ok_frame(1)[OF ok c(2)])
  from UpdateMipHeightmaps_post[OF oka rok, of ?ini] b have okb: "buffers_ok E d b" by auto
  from UpdateFaceNormals_post[OF okb, of ?cr ?ini] obtain e f fu cn cu c2 where
    e: "UpdateFaceNormals E d ?cr ?ini b = Some e" "buffers_ok E d e"
      "e = b\<lparr>faceNormalsSynced := f, faceNormalsUnsynced := fu,
             centerNormalsSynced := cn, centerNormalsUnsynced := cu, centerNormals2D := c2\<rparr>"
    by blast
  from UpdateSlopemap_post[OF e(2), of ?cr ?ini] obtain g sm where
    g: "UpdateSlopemap E d ?cr ?ini e = Some g" "g = e\<lparr>slopeMap := sm\<rparr>"
    by blast
  have "UpdateHeightMapSynced E d r s
      = Some (g\<lparr>unsyncedHeightMapUpdates := unsyncedHeightMapUpdates g @ pushed_rects E d r\<rparr>)"
    unfolding UpdateHeightMapSynced_steps Let_def by (simp add: a b e(1) g(1))
  moreover have "mipCenterHeightMaps g = mipCenterHeightMaps b" "centerHeightMap g = centerHeightMap b"
    by (simp_all add: g(2) e(3))
  ultimately show ?thesis by simp
qed

lemma mip_steps_eval:
  "\<exists>b. (UpdateCenterHeightmap real_env \<lparr>mapx = 64, mapy = 64\<rparr> \<lparr>x1 = 31, z1 = 31, x2 = 33, z2 = 33\<rparr> False
           (sized_state 64 ((replicate 4225 0)[2112 := 10]) (Float3 0 1 0))
         \<bind> UpdateMipHeightmaps real_env \<lparr>mapx = 64, mapy = 64\<rparr> \<lparr>x1 = 31, z1 = 31, x2 = 33, z2 = 33\<rparr> False) = Some b
     \<and> mip_cell \<lparr>mapx = 64, mapy = 64\<rparr> b 1 16 14 = 0
     \<and> mip_cell \<lparr>mapx = 64, mapy = 64\<rparr> b 1 16 15 = 5 / 8
     \<and> mip_cell \<lparr>mapx = 64, mapy = 64\<rparr> b 1 17 14 = 0
     \<and> mip_cell \<lparr>mapx = 64, mapy = 64\<rparr> b 1 17 15 = 0
     \<and> mip_cell \<lparr>mapx = 64, mapy = 64\<rparr> b 2 8 7 = 0"
  by (simp add: UpdateCenterHeightmap_def UpdateCenterHeightmap_body_def
      UpdateMipHeightmaps_def UpdateMipHeightmaps_level_def UpdateMipHeightmaps_body_def
      mipPointerHeightMaps_def mip_store_def mip_cell_def mip_level_def
      for_step.simps rd_def wr_def real_env_def sized_state_def
      mapxp1_def mapyp1_def drop_bit_eq_div signed_divide_int_def Let_def
      nth_list_update)

section \<open>The XOR differential payload round-trips\<close>

lemma write_changes:
  assumes "int (length ref) = mapxp1 d * mapyp1 d" "length cur = length ref"
  shows "SerializeMapChanges d (Writer pre) ref cur = Some (Writer (pre @ map2 (XOR) cur ref), cur)"
proof -
  let ?n = "mapxp1 d * mapyp1 d"
  let ?out = "map2 (XOR) cur ref"
  let ?I = "\<lambda>j (s, ichms). ichms = cur \<and> s = Writer (pre @ take (nat j) ?out)"
  let ?body = "(\<lambda>i (s, ichms). do {
             a \<leftarrow> rd ichms i;
             b \<leftarrow> rd ref i;
             s' \<leftarrow> Serialize_put s (a XOR b);
             Some (s', ichms) })"
  have "\<exists>s'. for_step 1 0 ?n ?body (Writer pre, cur) = Some s' \<and> ?I (max 0 ?n) s'"
  proof (rule for_loop_rule)
    show "?I 0 (Writer pre, cur)" by simp
  next
    fix j t assume j: "0 \<le> j" "j < ?n" and I: "?I j t"
    have len: "nat j < length ?out" using j assms by simp
    have "take (nat (j + 1)) ?out = take (nat j) ?out @ [cur ! nat j XOR ref ! nat j]"
      using len j assms by (simp add: nat_add_distrib take_Suc_conv_app_nth)
    then show "\<exists>t'. ?body j t = Some t' \<and> ?I (j + 1) t'"
      using j I assms by (cases t) (simp add: rd_Some)
  qed
  moreover have "take (nat (max 0 ?n)) ?out = ?out"
    using assms by simp
  ultimately show ?thesis by (auto simp: SerializeMapChanges_def)
qed

lemma read_changes:
  assumes "int (length ref) = mapxp1 d * mapyp1 d" "length cur = length ref" "length old = length ref"
  shows "SerializeMapChanges d (Reader (map2 (XOR) cur ref @ rest)) ref old = Some (Reader rest, cur)"
proof -
  let ?n = "mapxp1 d * mapyp1 d"
  let ?out = "map2 (XOR) cur ref"
  let ?I = "\<lambda>j (s, ichms). s = Reader (drop (nat j) ?out @ rest) \<and> ichms = take (nat j) cur @ drop (nat j) old"
  let ?body = "(\<lambda>i (s, ichms). do {
             (height, s') \<leftarrow> Serialize_get s;
             b \<leftarrow> rd ref i;
             ichms' \<leftarrow> wr ichms i (height XOR b);
             Some (s', ichms') })"
  have "\<exists>s'. for_step 1 0 ?n ?body (Reader (?out @ rest), old) = Some s' \<and> ?I (max 0 ?n) s'"
  proof (rule for_loop_rule)
    show "?I 0 (Reader (?out @ rest), old)" by simp
  next
    fix j t assume j: "0 \<le> j" "j < ?n" and I: "?I j t"
    have len: "nat j < length ?out" "nat j < length cur" "nat j < length old" "nat j < length ref"
      using j assms by simp_all
    have d: "drop (nat j) ?out = (cur ! nat j XOR ref ! nat j) # drop (nat (j + 1)) ?out"
      using len j by (simp add: nat_add_distrib Cons_nth_drop_Suc[symmetric] del: Cons_nth_drop_Suc)
    have x: "(cur ! nat j XOR ref ! nat j) XOR ref ! nat j = cur ! nat j"
      by (simp add: xor.assoc)
    have u: "(take (nat j) cur @ drop (nat j) old)[nat j := cur ! nat j] = take (nat (j + 1)) cur @ drop (nat (j + 1)) old"
      using len j by (simp add: nat_add_distrib take_Suc_conv_app_nth list_update_append upd_conv_take_nth_drop min_def)
    show "\<exists>t'. ?body j t = Some t' \<and> ?I (j + 1) t'"
      using j I assms len d x u by (cases t) (simp add: rd_Some wr_Some)
  qed
  moreover have "drop (nat (max 0 ?n)) ?out = []" "take (nat (max 0 ?n)) cur @ drop (nat (max 0 ?n)) old = cur"
    using assms by simp_all
  ultimately show ?thesis using assms by (auto simp: SerializeMapChanges_def)
qed

text \<open>
  Claim C6. Writing the height map \<open>cur\<close> against the reference \<open>ref\<close> appends to the
  stream the words \<open>cur[i] XOR ref[i]\<close> in index order (the row-major order of the
  buffer) and leaves the height map as it was; reading that payload back against the same
  reference, into a buffer of the same size with any contents, yields \<open>cur\<close> again,
  word for word, and consumes exactly the payload.
\<close>

theorem SerializeMapChanges_roundtrip:
  assumes "int (length ref) = mapxp1 d * mapyp1 d"
    and "length cur = length ref" and "length old = length ref"
  shows "SerializeMapChanges d (Writer pre) ref cur = Some (Writer (pre @ map2 (XOR) cur ref), cur)
       \<and> SerializeMapChanges d (Reader (map2 (XOR) cur ref @ rest)) ref old = Some (Reader rest, cur)"
  using write_changes[OF assms(1,2)] read_changes[OF assms] by simp

theorem SerializeMapChanges_roundtrip_witness:
  "SerializeMapChanges \<lparr>mapx = 1, mapy = 1\<rparr> (Writer [7]) [1, 2, 3, 4] [5, 2, 7, 4]
      = Some (Writer [7, 4, 0, 4, 0], [5, 2, 7, 4])
   \<and> SerializeMapChanges \<lparr>mapx = 1, mapy = 1\<rparr> (Reader [4, 0, 4, 0, 9]) [1, 2, 3, 4] [0, 0, 0, 0]
      = Some (Reader [9], [5, 2, 7, 4])"
  using SerializeMapChanges_roundtrip[of "[1, 2, 3, 4]" "\<lparr>mapx = 1, mapy = 1\<rparr>" "[5, 2, 7, 4]" "[0, 0, 0, 0]" "[7]" "[9]"]
  by (simp add: mapxp1_def mapyp1_def)

section \<open>The per-frame drain of the update queue\<close>

lemma collect_front:
  assumes "n \<le> length q"
  shows "for_step 1 0 (int n) (\<lambda>i acc. do { r \<leftarrow> rd q i; Some (acc @ [r]) }) [] = Some (take n q)"
proof -
  let ?I = "\<lambda>j acc. acc = take (nat j) q"
  have "\<exists>s'. for_step 1 0 (int n) (\<lambda>i acc. do { r \<leftarrow> rd q i; Some (acc @ [r]) }) [] = Some s' \<and> ?I (max 0 (int n)) s'"
  proof (rule for_loop_rule)
    show "?I 0 []" by simp
  next
    fix j t assume j: "0 \<le> j" "j < int n" and I: "?I j t"
    have "nat j < length q" using j assms by linarith
    then show "\<exists>t'. (do { r \<leftarrow> rd q j; Some (t @ [r]) }) = Some t' \<and> ?I (j + 1) t'"
      using j I by (simp add: rd_Some nat_add_distrib take_Suc_conv_app_nth)
  qed
  then show ?thesis by simp
qed

lemma pop_front_loop:
  assumes "n \<le> length q"
  shows "for_step 1 0 (int n) (\<lambda>i q. pop_front q) q = Some (drop n q)"
proof -
  let ?I = "\<lambda>j t. t = drop (nat j) q"
  have "\<exists>s'. for_step 1 0 (int n) (\<lambda>i q. pop_front q) q = Some s' \<and> ?I (max 0 (int n)) s'"
  proof (rule for_loop_rule)
    show "?I 0 q" by simp
  next
    fix j t assume j: "0 \<le> j" "j < int n" and I: "?I j t"
    have "nat j < length q" using j assms by linarith
    then have "drop (nat j) q = q ! nat j # drop (nat (j + 1)) q"
      using j by (simp add: nat_add_distrib Cons_nth_drop_Suc[symmetric] del: Cons_nth_drop_Suc)
    then show "\<exists>t'. pop_front t = Some t' \<and> ?I (j + 1) t'" using I by simp
  qed
  then show ?thesis by simp
qed

text \<open>
  Claim C8. One call of \<open>UpdateDraw\<close> works on the queue as \<open>Process\<close> has laid it
  out (nothing when the queue was empty). It passes the first
  \<open>MAX_UHM_RECTS_PER_FRAME = 128\<close> rectangles of it, or all of them when there are
  fewer, to \<open>UpdateHeightMapUnsynced\<close> and then to the event handler, in queue order,
  and pops exactly those: the queue it leaves is the rest, in order, so that the handled
  rectangles followed by the remaining queue are the whole laid-out queue.
\<close>

theorem UpdateDraw_bounded_drain:
  "\<exists>e s'. UpdateDraw Process firstCall s = Some (e, s')
     \<and> (let pending = (if unsyncedHeightMapUpdates s = [] then []
                        else Process firstCall (unsyncedHeightMapUpdates s))
        in length (uhmUpdated e) \<le> 128
         \<and> uhmUpdated e = take MAX_UHM_RECTS_PER_FRAME pending
         \<and> uhmEvents e = uhmUpdated e
         \<and> unsyncedHeightMapUpdates s' = drop MAX_UHM_RECTS_PER_FRAME pending
         \<and> uhmUpdated e @ unsyncedHeightMapUpdates s' = pending
         \<and> s' = s\<lparr>unsyncedHeightMapUpdates := unsyncedHeightMapUpdates s'\<rparr>)"
proof -
  let ?q = "Process firstCall (unsyncedHeightMapUpdates s)"
  let ?N = "min MAX_UHM_RECTS_PER_FRAME (length ?q)"
  have "?N \<le> length ?q" by simp
  note a = collect_front[OF this] pop_front_loop[OF this]
  have "take ?N ?q = take MAX_UHM_RECTS_PER_FRAME ?q" "drop ?N ?q = drop MAX_UHM_RECTS_PER_FRAME ?q"
    by (simp_all add: min_def)
  then show ?thesis using a by (simp add: UpdateDraw_def Let_def MAX_UHM_RECTS_PER_FRAME_def)
qed

section \<open>Safety of the pipeline and the center heights\<close>

text \<open>
  Claim C10. For every rectangle \<open>r\<close>, whatever its coordinates (inside the map, across
  its border or wholly outside it), \<open>UpdateHeightMapSynced\<close> runs to its end on a state
  whose buffers have their allocated sizes: no read or write of the center-height, mip,
  face-normal or slope loops leaves its buffer (an access out of range is \<open>None\<close> in the
  model), and the buffers keep their sizes.
\<close>

theorem UpdateHeightMapSynced_in_bounds:
  assumes "buffers_ok E d s"
  shows "\<exists>s'. UpdateHeightMapSynced E d r s = Some s' \<and> buffers_ok E d s'"
  using pipeline_post[OF assms, of r] by blast

theorem UpdateHeightMapSynced_in_bounds_witness:
  "buffers_ok real_env \<lparr>mapx = 64, mapy = 64\<rparr> (sized_state 64 (replicate 4225 0) (Float3 0 1 0))
   \<and> (\<exists>s'. UpdateHeightMapSynced real_env \<lparr>mapx = 64, mapy = 64\<rparr> \<lparr>x1 = - 5, z1 = 60, x2 = 70, z2 = 200\<rparr>
              (sized_state 64 (replicate 4225 0) (Float3 0 1 0)) = Some s'
          \<and> buffers_ok real_env \<lparr>mapx = 64, mapy = 64\<rparr> s')"
proof -
  have ok: "buffers_ok real_env \<lparr>mapx = 64, mapy = 64\<rparr> (sized_state 64 (replicate 4225 0) (Float3 0 1 0))"
    by (rule sized_state_ok) simp
  from UpdateHeightMapSynced_in_bounds[OF ok] ok show ?thesis by blast
qed

text \<open>
  Claim C1. After \<open>UpdateHeightMapSynced\<close> on a rectangle \<open>r\<close>, the corner heights are
  untouched and every center-height cell \<open>(x, y)\<close> of the clamped, one-cell-expanded
  rectangle holds \<open>(hTL + hTR + hBL + hBR) * 0.25f\<close>, the mean of the four corner
  heights of its square as the float expression of the source computes it.
\<close>

theorem UpdateHeightMapSynced_center_mean:
  assumes "buffers_ok E d s"
  shows "\<exists>s'. UpdateHeightMapSynced E d r s = Some s'
     \<and> heightMapSynced s' = heightMapSynced s
     \<and> (\<forall>x y. in_rect (centerRect d r) x y \<longrightarrow>
          centerHeightMap s' ! nat (y * mapx d + x) =
            (corner d (heightMapSynced s') x y + corner d (heightMapSynced s') (x + 1) y
             + corner d (heightMapSynced s') x (y + 1) + corner d (heightMapSynced s') (x + 1) (y + 1))
            * lit_0_25 E)"
proof -
  from pipeline_post[OF assms, of r] obtain s' c m f fu cn cu c2 sm where
    s': "UpdateHeightMapSynced E d r s = Some s'" "derived_ok E d r s'"
      "s' = s\<lparr>centerHeightMap := c, mipCenterHeightMaps := m,
           faceNormalsSynced := f, faceNormalsUnsynced := fu, centerNormalsSynced := cn,
           centerNormalsUnsynced := cu, centerNormals2D := c2, slopeMap := sm,
           unsyncedHeightMapUpdates := unsyncedHeightMapUpdates s @ pushed_rects E d r\<rparr>"
    by blast
  have "heightMapSynced s' = heightMapSynced s" by (simp add: s'(3))
  moreover have "\<forall>x y. in_rect (centerRect d r) x y \<longrightarrow>
          centerHeightMap s' ! nat (y * mapx d + x) = center_value E d (heightMapSynced s') x y"
    using s'(2) unfolding derived_ok_def by (rule conjunct1)
  ultimately show ?thesis using s'(1) unfolding center_value_def by blast
qed

theorem UpdateHeightMapSynced_center_mean_witness:
  "buffers_ok real_env \<lparr>mapx = 64, mapy = 64\<rparr> (sized_state 64 ((replicate 4225 0)[132 := 10]) (Float3 0 1 0))
   \<and> (\<exists>s'. UpdateHeightMapSynced real_env \<lparr>mapx = 64, mapy = 64\<rparr> \<lparr>x1 = 2, z1 = 2, x2 = 2, z2 = 2\<rparr>
              (sized_state 64 ((replicate 4225 0)[132 := 10]) (Float3 0 1 0)) = Some s'
          \<and> centerHeightMap s' ! 65 = 5 / 2)"
proof -
  let ?d = "\<lparr>mapx = 64, mapy = 64\<rparr>"
  let ?s = "sized_state 64 ((replicate 4225 0)[132 := 10]) (Float3 0 1 0)"
  have ok: "buffers_ok real_env ?d ?s" by (rule sized_state_ok) simp
  from UpdateHeightMapSynced_center_mean[OF ok, of "\<lparr>x1 = 2, z1 = 2, x2 = 2, z2 = 2\<rparr>"]
  obtain s' where s': "UpdateHeightMapSynced real_env ?d \<lparr>x1 = 2, z1 = 2, x2 = 2, z2 = 2\<rparr> ?s = Some s'"
    "heightMapSynced s' = heightMapSynced ?s"
    "\<forall>x y. in_rect (centerRect ?d \<lparr>x1 = 2, z1 = 2, x2 = 2, z2 = 2\<rparr>) x y \<longrightarrow>
          centerHeightMap s' ! nat (y * mapx ?d + x) =
            (corner ?d (heightMapSynced s') x y + corner ?d (heightMapSynced s') (x + 1) y
             + corner ?d (heightMapSynced s') x (y + 1) + corner ?d (heightMapSynced s') (x + 1) (y + 1))
            * lit_0_25 real_env"
    by blast
  have "in_rect (centerRect ?d \<lparr>x1 = 2, z1 = 2, x2 = 2, z2 = 2\<rparr>) 1 1"
    by (simp add: in_rect_def centerRect_def mapxm1_def mapym1_def)
  with s'(3) have "centerHeightMap s' ! nat (1 * mapx ?d + 1) =
            (corner ?d (heightMapSynced s') 1 1 + corner ?d (heightMapSynced s') (1 + 1) 1
             + corner ?d (heightMapSynced s') 1 (1 + 1) + corner ?d (heightMapSynced s') (1 + 1) (1 + 1))
            * lit_0_25 real_env" by blast
  then have "centerHeightMap s' ! 65 = 5 / 2"
    unfolding s'(2) by (simp add: corner_def mapxp1_def sized_state_def real_env_def)
  then show ?thesis using ok s'(1) by blast
qed

section \<open>The mip invariant and idempotence\<close>

lemma block_visited:
  assumes "drop_bit (nat i) (x1 cr) \<le> 2 * cx" "2 * cx + 1 \<le> drop_bit (nat i) (x2 cr)"
    and "drop_bit (nat i) (z1 cr) \<le> 2 * cy" "2 * cy + 1 \<le> drop_bit (nat i) (z2 cr)"
  shows "mip_visited cr i (2 * cx) (2 * cy)"
proof -
  have "2 * (drop_bit (nat i) (x1 cr) div 2) \<le> drop_bit (nat i) (x1 cr)"
    "2 * (drop_bit (nat i) (z1 cr) div 2) \<le> drop_bit (nat i) (z1 cr)" by simp_all
  then show ?thesis using assms unfolding mip_visited_def Let_def and_not_one by auto
qed

text \<open>
  What the mip step does establish. After \<open>UpdateHeightMapSynced\<close> on a rectangle \<open>r\<close>
  (its mip step is \<open>UpdateMipHeightmaps\<close> on the clamped expanded rectangle), for every level
  \<open>i\<close> below the last and every cell \<open>(cx, cy)\<close> of level \<open>i + 1\<close> whose four source cells
  \<open>(2cx, 2cy) \<dots> (2cx + 1, 2cy + 1)\<close> of level \<open>i\<close> all lie in the rectangle scaled to level
  \<open>i\<close>, the cell holds the sum of the four source cells times \<open>0.25f\<close>, as the buffers
  stand when the pipeline returns. Level 0 is the center height map. A cell whose block
  lies only partly in the scaled rectangle is not covered: see the last section.
\<close>

theorem UpdateHeightMapSynced_mip_average:
  assumes "buffers_ok E d s"
  shows "\<exists>s'. UpdateHeightMapSynced E d r s = Some s'
     \<and> (\<forall>i cx cy. 0 \<le> i \<and> i < numHeightMipMaps E - 1
          \<and> drop_bit (nat i) (x1 (centerRect d r)) \<le> 2 * cx
          \<and> 2 * cx + 1 \<le> drop_bit (nat i) (x2 (centerRect d r))
          \<and> drop_bit (nat i) (z1 (centerRect d r)) \<le> 2 * cy
          \<and> 2 * cy + 1 \<le> drop_bit (nat i) (z2 (centerRect d r))
          \<longrightarrow> mip_cell d s' (i + 1) cx cy =
                (mip_cell d s' i (2 * cx) (2 * cy) + mip_cell d s' i (2 * cx) (2 * cy + 1)
                 + mip_cell d s' i (2 * cx + 1) (2 * cy) + mip_cell d s' i (2 * cx + 1) (2 * cy + 1))
                * lit_0_25 E)"
proof -
  from pipeline_post[OF assms, of r] obtain s' where
    s': "UpdateHeightMapSynced E d r s = Some s'" "derived_ok E d r s'" by blast
  note D = s'(2)[unfolded derived_ok_def, THEN conjunct2, THEN conjunct1]
  have "mip_cell d s' (i + 1) cx cy =
                (mip_cell d s' i (2 * cx) (2 * cy) + mip_cell d s' i (2 * cx) (2 * cy + 1)
                 + mip_cell d s' i (2 * cx + 1) (2 * cy) + mip_cell d s' i (2 * cx + 1) (2 * cy + 1))
                * lit_0_25 E"
    if "0 \<le> i" "i < numHeightMipMaps E - 1"
      "drop_bit (nat i) (x1 (centerRect d r)) \<le> 2 * cx" "2 * cx + 1 \<le> drop_bit (nat i) (x2 (centerRect d r))"
      "drop_bit (nat i) (z1 (centerRect d r)) \<le> 2 * cy" "2 * cy + 1 \<le> drop_bit (nat i) (z2 (centerRect d r))"
    for i cx cy
  proof -
    have "mip_avg_ok E d s' i ((2 * cx) div 2) ((2 * cy) div 2)"
      using D that(1,2) block_visited[OF that(3-6)] by blast
    then show ?thesis by (simp add: mip_avg_ok_def)
  qed
  then show ?thesis using s'(1) by blast
qed

theorem UpdateHeightMapSynced_mip_average_witness:
  "buffers_ok real_env \<lparr>mapx = 64, mapy = 64\<rparr> (sized_state 64 ((replicate 4225 0)[132 := 10]) (Float3 0 1 0))
   \<and> (\<exists>s'. UpdateHeightMapSynced real_env \<lparr>mapx = 64, mapy = 64\<rparr> \<lparr>x1 = 2, z1 = 2, x2 = 2, z2 = 2\<rparr>
              (sized_state 64 ((replicate 4225 0)[132 := 10]) (Float3 0 1 0)) = Some s'
          \<and> mip_cell \<lparr>mapx = 64, mapy = 64\<rparr> s' 1 1 1 =
               (mip_cell \<lparr>mapx = 64, mapy = 64\<rparr> s' 0 2 2 + mip_cell \<lparr>mapx = 64, mapy = 64\<rparr> s' 0 2 3
                + mip_cell \<lparr>mapx = 64, mapy = 64\<rparr> s' 0 3 2 + mip_cell \<lparr>mapx = 64, mapy = 64\<rparr> s' 0 3 3) * (1 / 4))"
proof -
  let ?d = "\<lparr>mapx = 64, mapy = 64\<rparr>"
  let ?r = "\<lparr>x1 = 2, z1 = 2, x2 = 2, z2 = 2\<rparr>"
  let ?s = "sized_state 64 ((replicate 4225 0)[132 := 10]) (Float3 0 1 0)"
  have ok: "buffers_ok real_env ?d ?s" by (rule sized_state_ok) simp
  from UpdateHeightMapSynced_mip_average[OF ok, of ?r]
  obtain s' where s': "UpdateHeightMapSynced real_env ?d ?r ?s = Some s'"
    "\<forall>i cx cy. 0 \<le> i \<and> i < numHeightMipMaps real_env - 1
          \<and> drop_bit (nat i) (x1 (centerRect ?d ?r)) \<le> 2 * cx
          \<and> 2 * cx + 1 \<le> drop_bit (nat i) (x2 (centerRect ?d ?r))
          \<and> drop_bit (nat i) (z1 (centerRect ?d ?r)) \<le> 2 * cy
          \<and> 2 * cy + 1 \<le> drop_bit (nat i) (z2 (centerRect ?d ?r))
          \<longrightarrow> mip_cell ?d s' (i + 1) cx cy =
                (mip_cell ?d s' i (2 * cx) (2 * cy) + mip_cell ?d s' i (2 * cx) (2 * cy + 1)
                 + mip_cell ?d s' i (2 * cx + 1) (2 * cy) + mip_cell ?d s' i (2 * cx + 1) (2 * cy + 1))
                * lit_0_25 real_env"
    by blast
  have "0 \<le> (0::int) \<and> 0 < numHeightMipMaps real_env - 1
          \<and> drop_bit (nat 0) (x1 (centerRect ?d ?r)) \<le> 2 * 1
          \<and> 2 * 1 + 1 \<le> drop_bit (nat 0) (x2 (centerRect ?d ?r))
          \<and> drop_bit (nat 0) (z1 (centerRect ?d ?r)) \<le> 2 * 1
          \<and> 2 * 1 + 1 \<le> drop_bit (nat 0) (z2 (centerRect ?d ?r))"
    by (simp add: centerRect_def mapxm1_def mapym1_def real_env_def)
  from s'(2)[rule_format, OF this]
  have "mip_cell ?d s' 1 1 1 =
               (mip_cell ?d s' 0 2 2 + mip_cell ?d s' 0 2 3
                + mip_cell ?d s' 0 3 2 + mip_cell ?d s' 0 3 3) * (1 / 4)"
    by (simp add: real_env_def)
  then show ?thesis using ok s'(1) by blast
qed

text \<open>
  Claim C7. Running \<open>UpdateHeightMapSynced\<close> on the same rectangle a second time, with
  no change of the corner heights in between, succeeds and leaves the center heights,
  every mip level, the synced and unsynced face normals and center normals, the 2D center
  normals and the slope map exactly as the first run left them; the second run only
  appends its rectangles to the update queue once more.
\<close>

theorem UpdateHeightMapSynced_idempotent:
  assumes "buffers_ok E d s"
  shows "\<exists>s' s''. UpdateHeightMapSynced E d r s = Some s'
     \<and> UpdateHeightMapSynced E d r s' = Some s''
     \<and> centerHeightMap s'' = centerHeightMap s'
     \<and> mipCenterHeightMaps s'' = mipCenterHeightMaps s'
     \<and> faceNormalsSynced s'' = faceNormalsSynced s'
     \<and> faceNormalsUnsynced s'' = faceNormalsUnsynced s'
     \<and> centerNormalsSynced s'' = centerNormalsSynced s'
     \<and> centerNormalsUnsynced s'' = centerNormalsUnsynced s'
     \<and> centerNormals2D s'' = centerNormals2D s'
     \<and> slopeMap s'' = slopeMap s'
     \<and> s'' = s'\<lparr>unsyncedHeightMapUpdates := unsyncedHeightMapUpdates s' @ pushed_rects E d r\<rparr>"
proof -
  from pipeline_post[OF assms, of r] obtain s' where
    s': "UpdateHeightMapSynced E d r s = Some s'" "buffers_ok E d s'" "derived_ok E d r s'" by blast
  define s'' where "s'' = s'\<lparr>unsyncedHeightMapUpdates := unsyncedHeightMapUpdates s' @ pushed_rects E d r\<rparr>"
  have "UpdateHeightMapSynced E d r s' = Some s''"
    unfolding s''_def by (rule pipeline_idem[OF s'(2,3)])
  moreover have "centerHeightMap s'' = centerHeightMap s'" "mipCenterHeightMaps s'' = mipCenterHeightMaps s'"
     "faceNormalsSynced s'' = faceNormalsSynced s'" "faceNormalsUnsynced s'' = faceNormalsUnsynced s'"
     "centerNormalsSynced s'' = centerNormalsSynced s'" "centerNormalsUnsynced s'' = centerNormalsUnsynced s'"
     "centerNormals2D s'' = centerNormals2D s'" "slopeMap s'' = slopeMap s'"
    by (simp_all add: s''_def)
  ultimately show ?thesis using s'(1) s''_def by blast
qed

theorem UpdateHeightMapSynced_idempotent_witness:
  "buffers_ok real_env \<lparr>mapx = 64, mapy = 64\<rparr> (sized_state 64 ((replicate 4225 0)[132 := 10]) (Float3 0 1 0))
   \<and> (\<exists>s' s''. UpdateHeightMapSynced real_env \<lparr>mapx = 64, mapy = 64\<rparr> \<lparr>x1 = 2, z1 = 2, x2 = 2, z2 = 2\<rparr>
              (sized_state 64 ((replicate 4225 0)[132 := 10]) (Float3 0 1 0)) = Some s'
          \<and> UpdateHeightMapSynced real_env \<lparr>mapx = 64, mapy = 64\<rparr> \<lparr>x1 = 2, z1 = 2, x2 = 2, z2 = 2\<rparr> s' = Some s''
          \<and> centerHeightMap s'' = centerHeightMap s'
          \<and> mipCenterHeightMaps s'' = mipCenterHeightMaps s'
          \<and> faceNormalsSynced s'' = faceNormalsSynced s'
          \<and> centerNormalsSynced s'' = centerNormalsSynced s'
          \<and> slopeMap s'' = slopeMap s')"
proof -
  have ok: "buffers_ok real_env \<lparr>mapx = 64, mapy = 64\<rparr> (sized_state 64 ((replicate 4225 0)[132 := 10]) (Float3 0 1 0))"
    by (rule sized_state_ok) simp
  from UpdateHeightMapSynced_idempotent[OF ok, of "\<lparr>x1 = 2, z1 = 2, x2 = 2, z2 = 2\<rparr>"] ok
  show ?thesis by blast
qed

section \<open>The orientation of the slope map\<close>

lemma sized_state_faces_up:
  assumes "0 \<le> x" "x < 64" "0 \<le> y" "y < 64"
  shows "fy (faceNormalsSynced (sized_state 64 hm (Float3 0 1 0)) ! nat ((y * mapx \<lparr>mapx = 64, mapy = 64\<rparr> + x) * 2)) = 1"
    "fy (faceNormalsSynced (sized_state 64 hm (Float3 0 1 0)) ! nat ((y * mapx \<lparr>mapx = 64, mapy = 64\<rparr> + x) * 2 + 1)) = 1"
proof -
  have "(y * 64 + x) * 2 + 1 < 64 * 64 * 2"
    using face_idx(2)[of x "\<lparr>mapx = 64, mapy = 64\<rparr>" y] assms by simp
  then have "nat ((y * 64 + x) * 2) < 8192" "nat ((y * 64 + x) * 2 + 1) < 8192" by linarith+
  then show "fy (faceNormalsSynced (sized_state 64 hm (Float3 0 1 0)) ! nat ((y * mapx \<lparr>mapx = 64, mapy = 64\<rparr> + x) * 2)) = 1"
    "fy (faceNormalsSynced (sized_state 64 hm (Float3 0 1 0)) ! nat ((y * mapx \<lparr>mapx = 64, mapy = 64\<rparr> + x) * 2 + 1)) = 1"
    by (simp_all add: sized_state_def)
qed

lemma whole_map_slope_hd:
  "map_option (hd \<circ> slopeMap)
     (UpdateHeightMapSynced real_env \<lparr>mapx = 64, mapy = 64\<rparr> \<lparr>x1 = 0, z1 = 0, x2 = 64, z2 = 64\<rparr>
        (sized_state 64 (replicate 4225 5) (Float3 0 0 0))) = Some 0"
proof -
  let ?d = "\<lparr>mapx = 64, mapy = 64\<rparr>"
  let ?r = "\<lparr>x1 = 0, z1 = 0, x2 = 64, z2 = 64\<rparr>"
  let ?s = "sized_state 64 (replicate 4225 5) (Float3 0 0 0)"
  have ok: "buffers_ok real_env ?d ?s" by (rule sized_state_ok) simp
  have flat: "\<forall>v \<in> set (heightMapSynced ?s). v = 5" by (simp add: sized_state_def)
  have old: "\<forall>x y. 0 \<le> x \<and> x < mapx ?d \<and> 0 \<le> y \<and> y < mapy ?d
                \<and> \<not> in_rect (face_rect ?d (centerRect ?d ?r)) x y \<longrightarrow>
              fy (faceNormalsSynced ?s ! nat ((y * mapx ?d + x) * 2)) = 1
            \<and> fy (faceNormalsSynced ?s ! nat ((y * mapx ?d + x) * 2 + 1)) = 1"
    by (auto simp: in_rect_def face_rect_def centerRect_def mapxm1_def mapym1_def)
  from flat_pipeline_slope[OF ok flat old] obtain s' where
    s': "UpdateHeightMapSynced real_env ?d ?r ?s = Some s'"
      "\<forall>x y. in_rect (slope_rect ?d (centerRect ?d ?r)) x y \<longrightarrow> slopeMap s' ! nat (y * hmapx ?d + x) = 0"
    by blast
  from pipeline_post[OF ok, of ?r] s'(1) have "buffers_ok real_env ?d s'" by auto
  then have "int (length (slopeMap s')) = hmapx ?d * hmapy ?d" by (simp add: buffers_ok_def)
  then have ne: "slopeMap s' \<noteq> []" by (auto simp: hmapx_def hmapy_def drop_bit_eq_div)
  have "in_rect (slope_rect ?d (centerRect ?d ?r)) 0 0"
    by (simp add: in_rect_def slope_rect_def centerRect_def mapxm1_def mapym1_def hmapx_def hmapy_def
        signed_divide_int_def drop_bit_eq_div)
  with s'(2) have "slopeMap s' ! nat (0 * hmapx ?d + 0) = 0" by blast
  then have "hd (slopeMap s') = 0" using ne by (simp add: hd_conv_nth)
  then show ?thesis by (simp add: s'(1))
qed

text \<open>
  Claim C4 does not hold as stated: the slope map is oriented the other way round. On
  uniformly flat terrain the slope loop stores 0, not 1, and the stored value grows
  towards 1 as the terrain steepens. The statement below is the amended claim, for exact
  arithmetic: on a grid that rises by \<open>g\<close> per square along x (the corner \<open>(x, y)\<close> has
  the height \<open>h + g * x\<close>; \<open>g = 0\<close> is the uniformly flat grid), on a state with its
  buffers allocated whose face normals outside the recomputed rectangle are those of that
  grid, every slope-map cell the pipeline computes is \<open>1 - 8 / sqrt (g\<^sup>2 + 64)\<close>, one minus
  the vertical component of the unit normal of the ramp; this value is 0 exactly when
  the grid is flat, lies in \<open>[0, 1)\<close>, and is strictly larger for a steeper ramp.
\<close>

theorem ramp_slope_orientation:
  assumes "buffers_ok real_env d s"
    and "\<forall>x y. 0 \<le> x \<and> x \<le> mapx d \<and> 0 \<le> y \<and> y \<le> mapy d \<longrightarrow>
              corner d (heightMapSynced s) x y = h + g * real_of_int x"
    and "\<forall>x y. 0 \<le> x \<and> x < mapx d \<and> 0 \<le> y \<and> y < mapy d
                \<and> \<not> in_rect (face_rect d (centerRect d r)) x y \<longrightarrow>
              fy (faceNormalsSynced s ! nat ((y * mapx d + x) * 2)) = 8 / sqrt (g\<^sup>2 + 64)
            \<and> fy (faceNormalsSynced s ! nat ((y * mapx d + x) * 2 + 1)) = 8 / sqrt (g\<^sup>2 + 64)"
  shows "(\<exists>s'. UpdateHeightMapSynced real_env d r s = Some s'
     \<and> (\<forall>x y. in_rect (slope_rect d (centerRect d r)) x y \<longrightarrow>
            slopeMap s' ! nat (y * hmapx d + x) = 1 - 8 / sqrt (g\<^sup>2 + 64)))
     \<and> (1 - 8 / sqrt (g\<^sup>2 + 64) = 0 \<longleftrightarrow> g = 0)
     \<and> 0 \<le> 1 - 8 / sqrt (g\<^sup>2 + 64) \<and> 1 - 8 / sqrt (g\<^sup>2 + 64) < 1
     \<and> (\<forall>g'. \<bar>g\<bar> < \<bar>g'\<bar> \<longrightarrow> 1 - 8 / sqrt (g\<^sup>2 + 64) < 1 - 8 / sqrt (g'\<^sup>2 + 64))"
proof -
  let ?c = "8 / sqrt (g\<^sup>2 + 64)"
  from pipeline_post[OF assms(1), of r] obtain s' where
    run: "UpdateHeightMapSynced real_env d r s = Some s'" by blast
  have cpos: "0 < ?c" using steepness_value(2)[of g] by linarith
  have "slopeMap s' ! nat (y * hmapx d + x) = 1 - ?c"
    if i: "in_rect (slope_rect d (centerRect d r)) x y" for x y
  proof -
    define P where "P = (\<lambda>n::real float3. fy n = ?c)"
    have new: "\<forall>X Y. 0 \<le> X \<and> X < mapx d \<and> 0 \<le> Y \<and> Y < mapy d \<longrightarrow>
                P (fnTL_value real_env d (heightMapSynced s) X Y) \<and> P (fnBR_value real_env d (heightMapSynced s) X Y)"
      unfolding P_def using assms(2) by (rule ramp_normals)
    have old: "\<forall>x y. 0 \<le> x \<and> x < mapx d \<and> 0 \<le> y \<and> y < mapy d
                \<and> \<not> in_rect (face_rect d (centerRect d r)) x y \<longrightarrow>
              P (faceNormalsSynced s ! nat ((y * mapx d + x) * 2))
            \<and> P (faceNormalsSynced s ! nat ((y * mapx d + x) * 2 + 1))"
      unfolding P_def by (rule assms(3))
    from pipeline_slope_pred[of real_env d s r s' P, OF assms(1) run new old i]
    obtain n0 n1 n2 n3 n4 n5 n6 n7 where
      q: "P n0" "P n1" "P n2" "P n3" "P n4" "P n5" "P n6" "P n7"
      and e: "slopeMap s' ! nat (y * hmapx d + x) =
         lit_1 real_env - mix real_env
           (std_min (std_min (std_min (std_min (std_min (std_min (std_min
                       (fy n0) (fy n1)) (fy n2)) (fy n3)) (fy n4)) (fy n5)) (fy n6)) (fy n7))
           ((lit_0 real_env + fy n0 + fy n1 + fy n2 + fy n3 + fy n4 + fy n5 + fy n6 + fy n7) * lit_0_125 real_env)
           (std_min (std_min (std_min (std_min (std_min (std_min (std_min
                       (fy n0) (fy n1)) (fy n2)) (fy n3)) (fy n4)) (fy n5)) (fy n6)) (fy n7)
            / ((lit_0 real_env + fy n0 + fy n1 + fy n2 + fy n3 + fy n4 + fy n5 + fy n6 + fy n7) * lit_0_125 real_env))"
      by (elim exE conjE) (erule that; assumption)
    note p = q[unfolded P_def]
    show ?thesis unfolding e p by (rule blend_of_equal[OF cpos])
  qed
  then have "\<exists>s'. UpdateHeightMapSynced real_env d r s = Some s'
     \<and> (\<forall>x y. in_rect (slope_rect d (centerRect d r)) x y \<longrightarrow>
            slopeMap s' ! nat (y * hmapx d + x) = 1 - ?c)"
    using run by blast
  moreover have "\<forall>g'. \<bar>g\<bar> < \<bar>g'\<bar> \<longrightarrow> 1 - ?c < 1 - 8 / sqrt (g'\<^sup>2 + 64)"
    using steepness_value(4)[of g] by blast
  ultimately show ?thesis
    using steepness_value(1)[of g] steepness_value(2)[of g] steepness_value(3)[of g]
    by (intro conjI)
qed

theorem ramp_slope_orientation_witness:
  "buffers_ok real_env \<lparr>mapx = 64, mapy = 64\<rparr>
      (sized_state 64 (map (\<lambda>i. 6 * real (i mod 65)) [0..<4225]) (Float3 0 (4 / 5) 0))
   \<and> (\<exists>s'. UpdateHeightMapSynced real_env \<lparr>mapx = 64, mapy = 64\<rparr> \<lparr>x1 = 2, z1 = 2, x2 = 2, z2 = 2\<rparr>
              (sized_state 64 (map (\<lambda>i. 6 * real (i mod 65)) [0..<4225]) (Float3 0 (4 / 5) 0)) = Some s'
          \<and> slopeMap s' ! 33 = 1 / 5)"
proof -
  let ?d = "\<lparr>mapx = 64, mapy = 64\<rparr>"
  let ?r = "\<lparr>x1 = 2, z1 = 2, x2 = 2, z2 = 2\<rparr>"
  let ?hm = "map (\<lambda>i. 6 * real (i mod 65)) [0..<4225]"
  let ?s = "sized_state 64 ?hm (Float3 0 (4 / 5) 0)"
  have v: "8 / sqrt ((6::real)\<^sup>2 + 64) = 4 / 5" by (simp add: sqrt100)
  have ok: "buffers_ok real_env ?d ?s" by (rule sized_state_ok) simp
  have ramp: "\<forall>x y. 0 \<le> x \<and> x \<le> mapx ?d \<and> 0 \<le> y \<and> y \<le> mapy ?d \<longrightarrow>
              corner ?d (heightMapSynced ?s) x y = 0 + 6 * real_of_int x"
  proof (intro allI impI)
    fix x y :: int
    assume "0 \<le> x \<and> x \<le> mapx ?d \<and> 0 \<le> y \<and> y \<le> mapy ?d"
    then have b: "0 \<le> x" "x \<le> 64" "0 \<le> y" "y \<le> 64" by simp_all
    have "heightMapSynced ?s = ?hm" by (simp add: sized_state_def)
    then show "corner ?d (heightMapSynced ?s) x y = 0 + 6 * real_of_int x"
      using ramp_grid_corner[OF b] by simp
  qed
  have old: "\<forall>x y. 0 \<le> x \<and> x < mapx ?d \<and> 0 \<le> y \<and> y < mapy ?d
                \<and> \<not> in_rect (face_rect ?d (centerRect ?d ?r)) x y \<longrightarrow>
              fy (faceNormalsSynced ?s ! nat ((y * mapx ?d + x) * 2)) = 8 / sqrt (6\<^sup>2 + 64)
            \<and> fy (faceNormalsSynced ?s ! nat ((y * mapx ?d + x) * 2 + 1)) = 8 / sqrt (6\<^sup>2 + 64)"
  proof (intro allI impI)
    fix x y :: int
    assume "0 \<le> x \<and> x < mapx ?d \<and> 0 \<le> y \<and> y < mapy ?d
                \<and> \<not> in_rect (face_rect ?d (centerRect ?d ?r)) x y"
    then have b: "0 \<le> x" "x < 64" "0 \<le> y" "y < 64" by simp_all
    show "fy (faceNormalsSynced ?s ! nat ((y * mapx ?d + x) * 2)) = 8 / sqrt (6\<^sup>2 + 64)
            \<and> fy (faceNormalsSynced ?s ! nat ((y * mapx ?d + x) * 2 + 1)) = 8 / sqrt (6\<^sup>2 + 64)"
      unfolding sized_state_faces_ramp[OF b] v by simp
  qed
  from ramp_slope_orientation[OF ok ramp old, THEN conjunct1] obtain s' where
    s': "UpdateHeightMapSynced real_env ?d ?r ?s = Some s'"
      "\<forall>x y. in_rect (slope_rect ?d (centerRect ?d ?r)) x y \<longrightarrow>
         slopeMap s' ! nat (y * hmapx ?d + x) = 1 - 8 / sqrt (6\<^sup>2 + 64)"
    by blast
  have "in_rect (slope_rect ?d (centerRect ?d ?r)) 1 1"
    by (simp add: in_rect_def slope_rect_def centerRect_def mapxm1_def mapym1_def hmapx_def hmapy_def
        signed_divide_int_def drop_bit_eq_div)
  with s'(2) have "slopeMap s' ! nat (1 * hmapx ?d + 1) = 1 - 8 / sqrt (6\<^sup>2 + 64)" by blast
  then have "slopeMap s' ! 33 = 1 / 5" unfolding v by (simp add: hmapx_def drop_bit_eq_div)
  then show ?thesis using ok s'(1) by blast
qed

theorem flat_grid_slope_one_counterexample:
  "map_option (hd \<circ> slopeMap)
     (UpdateHeightMapSynced real_env \<lparr>mapx = 64, mapy = 64\<rparr> \<lparr>x1 = 0, z1 = 0, x2 = 64, z2 = 64\<rparr>
        (sized_state 64 (replicate 4225 5) (Float3 0 0 0))) = Some 0
   \<and> map_option (hd \<circ> slopeMap)
     (UpdateHeightMapSynced real_env \<lparr>mapx = 64, mapy = 64\<rparr> \<lparr>x1 = 0, z1 = 0, x2 = 64, z2 = 64\<rparr>
        (sized_state 64 (replicate 4225 5) (Float3 0 0 0))) \<noteq> Some 1"
  unfolding whole_map_slope_hd by simp

section \<open>The range of the slope map\<close>

text \<open>
  Claim C3 does not hold as stated: in single precision a cliff so high that the squared
  length of a face normal overflows leaves the normals of a slope cell with the vertical
  component 0, the quotient \<open>maxslope / avgslope\<close> is \<open>0 / 0\<close> and the cell is NaN. The
  statement below is the amended claim, for exact arithmetic: the float expressions are
  evaluated over the real numbers (no rounding, no overflow), with \<open>Normalize\<close> the
  division by the Euclidean length and \<open>mix\<close> the linear interpolation. For every corner
  grid and every rectangle \<open>r\<close>, on a state with its buffers allocated in which the face
  normals that the update does not recompute have a vertical component in \<open>(0, 1]\<close> (as
  every normal the face-normal loop stores in exact arithmetic has), the pipeline
  returns and each slope value that \<open>UpdateSlopemap\<close> writes lies in the closed interval
  \<open>[0, 1]\<close>.
\<close>

theorem UpdateSlopemap_unit_interval:
  assumes "buffers_ok real_env d s"
    and "\<forall>x y. 0 \<le> x \<and> x < mapx d \<and> 0 \<le> y \<and> y < mapy d
                \<and> \<not> in_rect (face_rect d (centerRect d r)) x y \<longrightarrow>
              (0 < fy (faceNormalsSynced s ! nat ((y * mapx d + x) * 2))
               \<and> fy (faceNormalsSynced s ! nat ((y * mapx d + x) * 2)) \<le> 1)
            \<and> (0 < fy (faceNormalsSynced s ! nat ((y * mapx d + x) * 2 + 1))
               \<and> fy (faceNormalsSynced s ! nat ((y * mapx d + x) * 2 + 1)) \<le> 1)"
  shows "\<exists>s'. UpdateHeightMapSynced real_env d r s = Some s'
     \<and> (\<forall>x y. in_rect (slope_rect d (centerRect d r)) x y \<longrightarrow>
            0 \<le> slopeMap s' ! nat (y * hmapx d + x) \<and> slopeMap s' ! nat (y * hmapx d + x) \<le> 1)"
proof -
  from pipeline_post[OF assms(1), of r] obtain s' where
    run: "UpdateHeightMapSynced real_env d r s = Some s'" by blast
  have "0 \<le> slopeMap s' ! nat (y * hmapx d + x) \<and> slopeMap s' ! nat (y * hmapx d + x) \<le> 1"
    if i: "in_rect (slope_rect d (centerRect d r)) x y" for x y
  proof -
    define P where "P = (\<lambda>n::real float3. 0 < fy n \<and> fy n \<le> 1)"
    have new: "\<forall>X Y. 0 \<le> X \<and> X < mapx d \<and> 0 \<le> Y \<and> Y < mapy d \<longrightarrow>
                P (fnTL_value real_env d (heightMapSynced s) X Y) \<and> P (fnBR_value real_env d (heightMapSynced s) X Y)"
      unfolding P_def by (rule computed_normals_unit)
    have old: "\<forall>x y. 0 \<le> x \<and> x < mapx d \<and> 0 \<le> y \<and> y < mapy d
                \<and> \<not> in_rect (face_rect d (centerRect d r)) x y \<longrightarrow>
              P (faceNormalsSynced s ! nat ((y * mapx d + x) * 2))
            \<and> P (faceNormalsSynced s ! nat ((y * mapx d + x) * 2 + 1))"
      unfolding P_def by (rule assms(2))
    from pipeline_slope_pred[of real_env d s r s' P, OF assms(1) run new old i]
    obtain n0 n1 n2 n3 n4 n5 n6 n7 where
      q: "P n0" "P n1" "P n2" "P n3" "P n4" "P n5" "P n6" "P n7"
      and e: "slopeMap s' ! nat (y * hmapx d + x) =
         lit_1 real_env - mix real_env
           (std_min (std_min (std_min (std_min (std_min (std_min (std_min
                       (fy n0) (fy n1)) (fy n2)) (fy n3)) (fy n4)) (fy n5)) (fy n6)) (fy n7))
           ((lit_0 real_env + fy n0 + fy n1 + fy n2 + fy n3 + fy n4 + fy n5 + fy n6 + fy n7) * lit_0_125 real_env)
           (std_min (std_min (std_min (std_min (std_min (std_min (std_min
                       (fy n0) (fy n1)) (fy n2)) (fy n3)) (fy n4)) (fy n5)) (fy n6)) (fy n7)
            / ((lit_0 real_env + fy n0 + fy n1 + fy n2 + fy n3 + fy n4 + fy n5 + fy n6 + fy n7) * lit_0_125 real_env))"
      by (elim exE conjE) (erule that; assumption)
    note p = q[unfolded P_def]
    show ?thesis unfolding e using blend_in_unit_interval[OF p] by (rule conjI)
  qed
  then show ?thesis using run by blast
qed

theorem UpdateSlopemap_unit_interval_witness:
  "buffers_ok real_env \<lparr>mapx = 64, mapy = 64\<rparr> (sized_state 64 ((replicate 4225 0)[132 := 10]) (Float3 0 1 0))
   \<and> (\<exists>s'. UpdateHeightMapSynced real_env \<lparr>mapx = 64, mapy = 64\<rparr> \<lparr>x1 = 2, z1 = 2, x2 = 2, z2 = 2\<rparr>
              (sized_state 64 ((replicate 4225 0)[132 := 10]) (Float3 0 1 0)) = Some s'
          \<and> 0 \<le> slopeMap s' ! 33 \<and> slopeMap s' ! 33 \<le> 1)"
proof -
  let ?d = "\<lparr>mapx = 64, mapy = 64\<rparr>"
  let ?r = "\<lparr>x1 = 2, z1 = 2, x2 = 2, z2 = 2\<rparr>"
  let ?s = "sized_state 64 ((replicate 4225 0)[132 := 10]) (Float3 0 1 0)"
  have ok: "buffers_ok real_env ?d ?s" by (rule sized_state_ok) simp
  have old: "\<forall>x y. 0 \<le> x \<and> x < mapx ?d \<and> 0 \<le> y \<and> y < mapy ?d
                \<and> \<not> in_rect (face_rect ?d (centerRect ?d ?r)) x y \<longrightarrow>
              (0 < fy (faceNormalsSynced ?s ! nat ((y * mapx ?d + x) * 2))
               \<and> fy (faceNormalsSynced ?s ! nat ((y * mapx ?d + x) * 2)) \<le> 1)
            \<and> (0 < fy (faceNormalsSynced ?s ! nat ((y * mapx ?d + x) * 2 + 1))
               \<and> fy (faceNormalsSynced ?s ! nat ((y * mapx ?d + x) * 2 + 1)) \<le> 1)"
  proof (intro allI impI)
    fix x y :: int
    assume a: "0 \<le> x \<and> x < mapx ?d \<and> 0 \<le> y \<and> y < mapy ?d
                \<and> \<not> in_rect (face_rect ?d (centerRect ?d ?r)) x y"
    then have b: "0 \<le> x" "x < 64" "0 \<le> y" "y < 64" by simp_all
    show "(0 < fy (faceNormalsSynced ?s ! nat ((y * mapx ?d + x) * 2))
               \<and> fy (faceNormalsSynced ?s ! nat ((y * mapx ?d + x) * 2)) \<le> 1)
            \<and> (0 < fy (faceNormalsSynced ?s ! nat ((y * mapx ?d + x) * 2 + 1))
               \<and> fy (faceNormalsSynced ?s ! nat ((y * mapx ?d + x) * 2 + 1)) \<le> 1)"
      unfolding sized_state_faces_up[OF b] by simp
  qed
  from UpdateSlopemap_unit_interval[OF ok old] obtain s' where
    s': "UpdateHeightMapSynced real_env ?d ?r ?s = Some s'"
      "\<forall>x y. in_rect (slope_rect ?d (centerRect ?d ?r)) x y \<longrightarrow>
         0 \<le> slopeMap s' ! nat (y * hmapx ?d + x) \<and> slopeMap s' ! nat (y * hmapx ?d + x) \<le> 1"
    by blast
  have "in_rect (slope_rect ?d (centerRect ?d ?r)) 1 1"
    by (simp add: in_rect_def slope_rect_def centerRect_def mapxm1_def mapym1_def hmapx_def hmapy_def
        signed_divide_int_def drop_bit_eq_div)
  with s'(2) have "0 \<le> slopeMap s' ! nat (1 * hmapx ?d + 1) \<and> slopeMap s' ! nat (1 * hmapx ?d + 1) \<le> 1"
    by blast
  then have "0 \<le> slopeMap s' ! 33 \<and> slopeMap s' ! 33 \<le> 1" by (simp add: hmapx_def drop_bit_eq_div)
  then show ?thesis using ok s'(1) by blast
qed

text \<open>The cliff: a map of 2 by 2 squares whose corner heights alternate between 0 and
  \<open>2\<^sup>1\<^sup>0\<^sup>0\<close>, initialized in the arithmetic with overflow. Every face has a height
  difference of \<open>2\<^sup>1\<^sup>0\<^sup>0\<close>, whose square overflows; the one slope cell is NaN, which is
  neither at least 0 nor at most 1.\<close>

theorem cliff_slope_nan_counterexample:
  "map_option (map_sum id slopeMap)
     (Initialize ieee_env \<lparr>mapx = 2, mapy = 2\<rparr>
        (loaded_state [Finite 0, Finite (2 ^ 100), Finite 0,
                       Finite (2 ^ 100), Finite 0, Finite (2 ^ 100),
                       Finite 0, Finite (2 ^ 100), Finite 0] (Finite 0)))
   = Some (Inr [NaN])
   \<and> \<not> (lit_0 ieee_env \<le> NaN \<and> NaN \<le> lit_1 ieee_env)"
proof -
  have "map_option (map_sum id slopeMap)
     (Initialize ieee_env \<lparr>mapx = 2, mapy = 2\<rparr>
        (loaded_state [Finite 0, Finite (2 ^ 100), Finite 0,
                       Finite (2 ^ 100), Finite 0, Finite (2 ^ 100),
                       Finite 0, Finite (2 ^ 100), Finite 0] (Finite 0)))
   = Some (Inr [NaN])"
    by (simp add: Initialize_def InitHeightBounds_def LoadOriginalHeightMapAndChecksum_def
      UpdateHeightMapSynced_def UpdateCenterHeightmap_def UpdateCenterHeightmap_body_def
      UpdateMipHeightmaps_def UpdateMipHeightmaps_level_def UpdateMipHeightmaps_body_def
      UpdateFaceNormals_def UpdateFaceNormals_body_def UpdateSlopemap_def UpdateSlopemap_body_def
      mipPointerHeightMaps_def mip_store_def float3_add_def
      for_step.simps rd_def wr_def ieee_env_def loaded_state_def
      mapxp1_def mapyp1_def mapxm1_def mapym1_def hmapx_def hmapy_def
      Normalize_ieee_def Normalize2D_ieee_def mix_ieee_def std_min_def std_max_def
      overflow_def minus_xfloat_def
      drop_bit_eq_div signed_divide_int_def eval_nat_numeral Let_def)
  moreover have "\<not> (lit_0 ieee_env \<le> NaN \<and> NaN \<le> lit_1 ieee_env)"
    by (simp add: ieee_env_def)
  ultimately show ?thesis by (rule conjI)
qed

section \<open>The paced scan of the height bounds\<close>

text \<open>
  Claim C5 does not hold as stated: the \<open>PACING_PERIOD\<close> calls of a cycle, for the slices
  \<open>0\<close> to \<open>PACING_PERIOD - 1\<close>, fold the whole grid into \<open>tempHeightBounds\<close> and leave
  \<open>currHeightBounds\<close> as the first call of the cycle left it; it is the next call with
  slice index 0, the first of the following cycle, that copies the pair into
  \<open>currHeightBounds\<close>. The statement below is the amended claim. Floats are taken to be
  linearly ordered (no NaN among the heights, and zeros of either sign identified, as
  \<open><\<close> identifies them); the frame \<open>f\<close> starts a cycle, a mutation is pending
  (\<open>hmUpdated\<close>), and the grid has its \<open>mapxp1 * mapyp1\<close> heights. Then the
  \<open>PACING_PERIOD\<close> calls for the frames \<open>f, \<dots>, f + PACING_PERIOD - 1\<close> all return, after
  them \<open>tempHeightBounds\<close> is the pair that the full rescan \<open>UpdateHeightBounds()\<close> of the
  same grid computes and commits, namely the least and the greatest height, and the call
  for frame \<open>f + PACING_PERIOD\<close> commits that pair into \<open>currHeightBounds\<close>.
\<close>

theorem paced_cycle_matches_full_rescan:
  fixes E :: "('a::linorder) Env"
  assumes "0 < GAME_SPEED E" and "0 < simdSize E"
    and "int (length (heightMapSynced s)) = mapxp1 d * mapyp1 d"
    and "0 \<le> f" and "f mod GAME_SPEED E = 0" and "hmUpdated s"
  shows "\<exists>s1 s2 sF. paced_calls E d (nat (GAME_SPEED E)) f s = Some s1
      \<and> UpdateHeightBounds_frame E d (f + GAME_SPEED E) s1 = Some s2
      \<and> UpdateHeightBounds E d s = Some sF
      \<and> tempHeightBounds s1 = currHeightBounds sF
      \<and> currHeightBounds s1 = (if processingHeightBounds s then tempHeightBounds s else currHeightBounds s)
      \<and> currHeightBounds s2 = currHeightBounds sF
      \<and> currHeightBounds sF = bounds_of E (heightMapSynced s)"
proof -
  let ?P = "GAME_SPEED E"
  have f': "0 \<le> f + ?P" "(f + ?P) mod ?P = 0" using assms(1,4,5) by simp_all
  let ?s1 = "paced_state E d s ?P"
  let ?s2 = "?s1\<lparr>currHeightBounds := tempHeightBounds ?s1, processingHeightBounds := False\<rparr>"
  let ?sF = "s\<lparr>tempHeightBounds := bounds_of E (heightMapSynced s),
               currHeightBounds := bounds_of E (heightMapSynced s)\<rparr>"
  have a: "paced_calls E d (nat ?P) f s = Some ?s1" using assms by (rule paced_calls_cycle)
  have b: "UpdateHeightBounds_frame E d (f + ?P) ?s1 = Some ?s2"
    using assms(1) f' by (rule UpdateHeightBounds_frame_commit)
  have c: "UpdateHeightBounds E d s = Some ?sF" using assms(2,3) by (rule UpdateHeightBounds_full)
  note t = paced_state_full[OF assms(1,3)]
  have "tempHeightBounds ?s1 = currHeightBounds ?sF"
    "currHeightBounds ?s1 = (if processingHeightBounds s then tempHeightBounds s else currHeightBounds s)"
    "currHeightBounds ?s2 = currHeightBounds ?sF"
    "currHeightBounds ?sF = bounds_of E (heightMapSynced s)"
    by (simp_all add: t)
  with a b c show ?thesis by blast
qed

theorem paced_cycle_matches_full_rescan_witness:
  "\<exists>s1 s2. paced_calls real_env \<lparr>mapx = 1, mapy = 1\<rparr> 30 0
                ((sized_state 1 [1, 2, 3, 4] (Float3 0 1 0))\<lparr>hmUpdated := True\<rparr>) = Some s1
      \<and> UpdateHeightBounds_frame real_env \<lparr>mapx = 1, mapy = 1\<rparr> 30 s1 = Some s2
      \<and> tempHeightBounds s1 = Float2 1 4
      \<and> currHeightBounds s1 = Float2 0 0
      \<and> currHeightBounds s2 = Float2 1 4"
proof -
  let ?d = "\<lparr>mapx = 1, mapy = 1\<rparr>"
  let ?s = "(sized_state 1 [1, 2, 3, 4] (Float3 0 1 0))\<lparr>hmUpdated := True\<rparr>"
  have g: "nat (GAME_SPEED real_env) = 30" "0 + GAME_SPEED real_env = 30"
    by (simp_all add: real_env_def)
  have b: "bounds_of real_env (heightMapSynced ?s) = Float2 1 4"
    by (simp add: bounds_of_def scan_bounds_def real_env_def sized_state_def)
  have i: "(if processingHeightBounds ?s then tempHeightBounds ?s else currHeightBounds ?s) = Float2 0 0"
    by (simp add: sized_state_def)
  have "\<exists>s1 s2 sF. paced_calls real_env ?d (nat (GAME_SPEED real_env)) 0 ?s = Some s1
      \<and> UpdateHeightBounds_frame real_env ?d (0 + GAME_SPEED real_env) s1 = Some s2
      \<and> UpdateHeightBounds real_env ?d ?s = Some sF
      \<and> tempHeightBounds s1 = currHeightBounds sF
      \<and> currHeightBounds s1 = (if processingHeightBounds ?s then tempHeightBounds ?s else currHeightBounds ?s)
      \<and> currHeightBounds s2 = currHeightBounds sF
      \<and> currHeightBounds sF = bounds_of real_env (heightMapSynced ?s)"
    by (rule paced_cycle_matches_full_rescan)
       (simp_all add: real_env_def sized_state_def mapxp1_def mapyp1_def)
  then have "\<exists>s1 s2 sF. paced_calls real_env ?d 30 0 ?s = Some s1
      \<and> UpdateHeightBounds_frame real_env ?d 30 s1 = Some s2
      \<and> UpdateHeightBounds real_env ?d ?s = Some sF
      \<and> tempHeightBounds s1 = currHeightBounds sF
      \<and> currHeightBounds s1 = Float2 0 0
      \<and> currHeightBounds s2 = currHeightBounds sF
      \<and> currHeightBounds sF = Float2 1 4"
    unfolding g b i .
  then obtain s1 s2 sF where
    "paced_calls real_env ?d 30 0 ?s = Some s1"
    "UpdateHeightBounds_frame real_env ?d 30 s1 = Some s2"
    "UpdateHeightBounds real_env ?d ?s = Some sF"
    "tempHeightBounds s1 = currHeightBounds sF"
    "currHeightBounds s1 = Float2 0 0"
    "currHeightBounds s2 = currHeightBounds sF"
    "currHeightBounds sF = Float2 1 4"
    by blast
  then show ?thesis by (intro exI[of _ s1] exI[of _ s2]) simp
qed

theorem paced_cycle_commit_counterexample:
  "map_option currHeightBounds
     (paced_calls real_env \<lparr>mapx = 1, mapy = 1\<rparr> 30 0
        ((sized_state 1 [1, 2, 3, 4] (Float3 0 1 0))\<lparr>hmUpdated := True\<rparr>)) = Some (Float2 0 0)
   \<and> map_option currHeightBounds
     (UpdateHeightBounds real_env \<lparr>mapx = 1, mapy = 1\<rparr>
        ((sized_state 1 [1, 2, 3, 4] (Float3 0 1 0))\<lparr>hmUpdated := True\<rparr>)) = Some (Float2 1 4)
   \<and> Float2 (0::real) 0 \<noteq> Float2 1 4"
proof -
  let ?d = "\<lparr>mapx = 1, mapy = 1\<rparr>"
  let ?s = "(sized_state 1 [1, 2, 3, 4] (Float3 0 1 0))\<lparr>hmUpdated := True\<rparr>"
  have g: "nat (GAME_SPEED real_env) = 30" by (simp add: real_env_def)
  have b: "bounds_of real_env (heightMapSynced ?s) = Float2 1 4"
    by (simp add: bounds_of_def scan_bounds_def real_env_def sized_state_def)
  have "paced_calls real_env ?d (nat (GAME_SPEED real_env)) 0 ?s
      = Some (paced_state real_env ?d ?s (GAME_SPEED real_env))"
    by (rule paced_calls_cycle)
       (simp_all add: real_env_def sized_state_def mapxp1_def mapyp1_def)
  then have "map_option currHeightBounds (paced_calls real_env ?d 30 0 ?s) = Some (Float2 0 0)"
    unfolding g by (simp add: paced_state_def sized_state_def)
  moreover have "UpdateHeightBounds real_env ?d ?s
     = Some (?s\<lparr>tempHeightBounds := bounds_of real_env (heightMapSynced ?s),
               currHeightBounds := bounds_of real_env (heightMapSynced ?s)\<rparr>)"
    by (rule UpdateHeightBounds_full)
       (simp_all add: real_env_def sized_state_def mapxp1_def mapyp1_def)
  then have "map_option currHeightBounds (UpdateHeightBounds real_env ?d ?s) = Some (Float2 1 4)"
    unfolding b by simp
  ultimately show ?thesis by simp
qed

section \<open>Initialization and the dimensions of the map\<close>

text \<open>
  Claim C9 does not hold as stated: \<open>Initialize\<close> has no check of the map dimensions
  against the depth of the mip pyramid and no \<open>throw\<close>. With the seven levels of the engine
  a map of 2 by 2 squares, which \<open>2\<^sup>6\<close> does not divide, is initialized to the end (its
  levels from the second on are empty and no loop touches them); with a pyramid of two
  levels so is a map of 3 by 3 squares, every buffer non-empty. The statement below is the amended
  claim: whatever the dimensions, \<open>Initialize\<close> does not raise \<open>ConfigurationError\<close>, and
  for positive dimensions that \<open>2\<^bsup>L - 1\<^esup>\<close> divides, on an object whose synced corner
  height map is loaded, it returns normally with every buffer and every mip level at its
  size.
\<close>

theorem Initialize_raises_no_ConfigurationError:
  fixes E :: "('a::{plus,minus,uminus,times,inverse,ord}) Env"
  shows "Initialize E d s \<noteq> Some (Inl ConfigurationError)
     \<and> (0 < mapx d \<and> 0 < mapy d \<and> 1 \<le> numHeightMipMaps E
        \<and> 2 ^ nat (numHeightMipMaps E - 1) dvd mapx d
        \<and> 2 ^ nat (numHeightMipMaps E - 1) dvd mapy d
        \<and> int (length (heightMapSynced s)) = mapxp1 d * mapyp1 d
        \<longrightarrow> (\<exists>s'. Initialize E d s = Some (Inr s') \<and> buffers_ok E d s'))"
  using Initialize_no_exception[of E d s ConfigurationError] Initialize_completes[of d E s]
  by blast

theorem Initialize_raises_no_ConfigurationError_witness:
  "Initialize real_env \<lparr>mapx = 64, mapy = 64\<rparr> (sized_state 64 (replicate 4225 0) (Float3 0 0 0))
      \<noteq> Some (Inl ConfigurationError)
   \<and> (\<exists>s'. Initialize real_env \<lparr>mapx = 64, mapy = 64\<rparr>
              (sized_state 64 (replicate 4225 0) (Float3 0 0 0)) = Some (Inr s')
          \<and> buffers_ok real_env \<lparr>mapx = 64, mapy = 64\<rparr> s')"
proof -
  let ?d = "\<lparr>mapx = 64, mapy = 64\<rparr>"
  let ?s = "sized_state 64 (replicate 4225 0) (Float3 0 0 0)"
  have "0 < mapx ?d \<and> 0 < mapy ?d \<and> 1 \<le> numHeightMipMaps real_env
        \<and> 2 ^ nat (numHeightMipMaps real_env - 1) dvd mapx ?d
        \<and> 2 ^ nat (numHeightMipMaps real_env - 1) dvd mapy ?d
        \<and> int (length (heightMapSynced ?s)) = mapxp1 ?d * mapyp1 ?d"
    by (simp add: real_env_def sized_state_def mapxp1_def mapyp1_def)
  with Initialize_raises_no_ConfigurationError[of real_env ?d ?s] show ?thesis by blast
qed

theorem Initialize_undivisible_counterexample:
  "(\<not> 2 ^ nat (numHeightMipMaps real_env - 1) dvd mapx \<lparr>mapx = 2, mapy = 2\<rparr>
    \<and> map_option isl (Initialize real_env \<lparr>mapx = 2, mapy = 2\<rparr>
         (sized_state 2 [0, 0, 0, 0, 0, 0, 0, 0, 0] (Float3 0 0 0))) = Some False)
   \<and> (\<not> 2 ^ nat (numHeightMipMaps (real_env\<lparr>numHeightMipMaps := 2\<rparr>) - 1) dvd mapx \<lparr>mapx = 3, mapy = 3\<rparr>
    \<and> map_option isl (Initialize (real_env\<lparr>numHeightMipMaps := 2\<rparr>) \<lparr>mapx = 3, mapy = 3\<rparr>
         (sized_state 3 [0, 0, 0, 0, 0, 0, 0, 0, 0, 0, 0, 0, 0, 0, 0, 0] (Float3 0 0 0))) = Some False)"
proof -
  note defs = Initialize_def InitHeightBounds_def LoadOriginalHeightMapAndChecksum_def
      UpdateHeightMapSynced_def UpdateCenterHeightmap_def UpdateCenterHeightmap_body_def
      UpdateMipHeightmaps_def UpdateMipHeightmaps_level_def UpdateMipHeightmaps_body_def
      UpdateFaceNormals_def UpdateFaceNormals_body_def UpdateSlopemap_def UpdateSlopemap_body_def
      mipPointerHeightMaps_def mip_store_def float3_add_def
      for_step.simps rd_def wr_def real_env_def sized_state_def
      mapxp1_def mapyp1_def mapxm1_def mapym1_def hmapx_def hmapy_def
      Normalize_exact_def Normalize2D_exact_def mix_exact_def std_min_def std_max_def
      sqrt64 drop_bit_eq_div signed_divide_int_def eval_nat_numeral Let_def
  have "\<not> (64::int) dvd 2" by simp
  then have a: "\<not> 2 ^ nat (numHeightMipMaps real_env - 1) dvd mapx \<lparr>mapx = 2, mapy = 2\<rparr>"
    by (simp add: real_env_def)
  have b: "map_option isl (Initialize real_env \<lparr>mapx = 2, mapy = 2\<rparr>
      (sized_state 2 [0, 0, 0, 0, 0, 0, 0, 0, 0] (Float3 0 0 0))) = Some False"
    by (simp add: defs)
  have c: "\<not> 2 ^ nat (numHeightMipMaps (real_env\<lparr>numHeightMipMaps := 2\<rparr>) - 1) dvd mapx \<lparr>mapx = 3, mapy = 3\<rparr>"
    by simp
  have e: "map_option isl (Initialize (real_env\<lparr>numHeightMipMaps := 2\<rparr>) \<lparr>mapx = 3, mapy = 3\<rparr>
      (sized_state 3 [0, 0, 0, 0, 0, 0, 0, 0, 0, 0, 0, 0, 0, 0, 0, 0] (Float3 0 0 0))) = Some False"
    by (simp add: defs)
  from a b c e show ?thesis by blast
qed

section \<open>Stale cells of the mip pyramid\<close>

text \<open>
  Claim C2 fails on the code. On a map of 64 by 64 squares, flat at height 0 with all
  derived buffers consistent, the corner \<open>(32, 32)\<close> is raised to 10 and the pipeline is
  run on the dirty rectangle \<open>{32, 32, 32, 32}\<close>. The mip loop of level 0 rewrites the
  cell \<open>(16, 15)\<close> of level 1 to \<open>5/8\<close>; the loop of level 1 runs for \<open>x < ex\<close> with
  \<open>ex = 33 >> 1 = 16\<close> and so stops before the block that starts at 16. The cell
  \<open>(8, 7)\<close> of level 2, whose source cells are \<open>(16, 14)\<close>, \<open>(16, 15)\<close>, \<open>(17, 14)\<close> and
  \<open>(17, 15)\<close> of level 1, keeps its old value 0 and is no longer the average of its
  sources.
\<close>

theorem mip_level_stale_after_update:
  "map_option (\<lambda>s'. (mip_cell \<lparr>mapx = 64, mapy = 64\<rparr> s' 1 16 14, mip_cell \<lparr>mapx = 64, mapy = 64\<rparr> s' 1 16 15,
                     mip_cell \<lparr>mapx = 64, mapy = 64\<rparr> s' 1 17 14, mip_cell \<lparr>mapx = 64, mapy = 64\<rparr> s' 1 17 15,
                     mip_cell \<lparr>mapx = 64, mapy = 64\<rparr> s' 2 8 7,
                     mip_avg_ok real_env \<lparr>mapx = 64, mapy = 64\<rparr> s' 1 8 7))
     (UpdateHeightMapSynced real_env \<lparr>mapx = 64, mapy = 64\<rparr> \<lparr>x1 = 32, z1 = 32, x2 = 32, z2 = 32\<rparr>
        (sized_state 64 ((replicate 4225 0)[2112 := 10]) (Float3 0 1 0)))
   = Some (0, 5 / 8, 0, 0, 0, False)"
proof -
  let ?d = "\<lparr>mapx = 64, mapy = 64\<rparr>"
  let ?r = "\<lparr>x1 = 32, z1 = 32, x2 = 32, z2 = 32\<rparr>"
  let ?s = "sized_state 64 ((replicate 4225 0)[2112 := 10]) (Float3 0 1 0)"
  have ok: "buffers_ok real_env ?d ?s" by (rule sized_state_ok) simp
  have cr: "centerRect ?d ?r = \<lparr>x1 = 31, z1 = 31, x2 = 33, z2 = 33\<rparr>"
    by (simp add: centerRect_def mapxm1_def mapym1_def)
  have ini: "(?r = \<lparr>x1 = 0, z1 = 0, x2 = mapx ?d, z2 = mapy ?d\<rparr>) = False" by simp
  from mip_steps_eval obtain b where
    b: "(UpdateCenterHeightmap real_env ?d (centerRect ?d ?r) (?r = \<lparr>x1 = 0, z1 = 0, x2 = mapx ?d, z2 = mapy ?d\<rparr>) ?s
         \<bind> UpdateMipHeightmaps real_env ?d (centerRect ?d ?r) (?r = \<lparr>x1 = 0, z1 = 0, x2 = mapx ?d, z2 = mapy ?d\<rparr>)) = Some b"
    and v: "mip_cell ?d b 1 16 14 = 0" "mip_cell ?d b 1 16 15 = 5 / 8" "mip_cell ?d b 1 17 14 = 0"
      "mip_cell ?d b 1 17 15 = 0" "mip_cell ?d b 2 8 7 = 0"
    unfolding cr ini by blast
  from pipeline_mips_frame[OF ok b] obtain s' where
    s': "UpdateHeightMapSynced real_env ?d ?r ?s = Some s'"
      "mipCenterHeightMaps s' = mipCenterHeightMaps b" "centerHeightMap s' = centerHeightMap b"
    by blast
  have e: "mip_cell ?d s' i x y = mip_cell ?d b i x y" for i x y
    by (simp add: mip_cell_def mip_level_def s'(2,3))
  have "\<not> mip_avg_ok real_env ?d s' 1 8 7"
    unfolding mip_avg_ok_def e using v by (simp add: real_env_def)
  then show ?thesis unfolding s'(1) by (simp add: e v)
qed

end
